theory Spec2Isabelle
  imports Complex_Main "HOL-Library.AList" "HOL-Library.Multiset" "HOL-Library.Sublist"
begin

section \<open>Python values, exceptions and the outside world\<close>

text \<open>
  The embedding follows \<^verbatim>\<open>src/async_image_generator.py\<close>. Every exception the
  script can raise is a value of \<open>py_error\<close>; a function that may raise returns
  \<open>py_error + 'a\<close> (\<open>Inl\<close> is the exception). Functions with effects take the
  \<open>world\<close> and return the new one beside their result.

  Conventions of the model:
  \<^item> \<open>bytes\<close> and \<open>str\<close> are both lists of 8-bit characters;
  \<^item> Python's \<open>float\<close> is modelled by \<open>real\<close>: the arithmetic of
    \<open>calculate_cost\<close> is exact, rounding of IEEE doubles is not modelled;
  \<^item> the libraries the script calls (aiohttp, base64, PIL, random, str.format, input)
    are parameters collected in the record \<open>env\<close>; every statement below holds for
    every behaviour of these libraries.
\<close>

datatype py_error =
    ClientError | JSONDecodeError | KeyError | IndexError | TypeError | AttributeError
  | BinasciiError | UnidentifiedImageError | OSError | EOFError | ValueError

type_synonym bytes = "char list"

type_synonym image = "char list"

datatype json =
    JNull | JBool bool | JNumber int | JString string
  | JArray "json list" | JObject "(string \<times> json) list"

record request =
  req_url :: string
  req_authorization :: string
  req_prompt :: string
  req_width :: int
  req_height :: int
  req_num_inference_steps :: int

text \<open>
  What \<^verbatim>\<open>session.post\<close> can do: fail in transport (aiohttp raises a
  \<^verbatim>\<open>ClientError\<close>), or deliver a response with a status and a body; the body is
  \<open>None\<close> when \<^verbatim>\<open>response.json()\<close> cannot parse it.
\<close>

datatype post_outcome = TransportFailure | Response int "json option"

text \<open>The lines the script prints, one constructor per \<^verbatim>\<open>print\<close> or prompt.\<close>

datatype event =
    PotentialCost real int
  | AskProceed
  | PleaseAnswer
  | OperationCancelled
  | GeneratingFor string
  | GeneratedPrompt string
  | ImageSaved string
  | FailedToGenerateOrSave
  | GenerationComplete
  | TotalGenerated int
  | ActualCost real

type_synonym directory = "(string \<times> bytes) list"

type_synonym filesystem = "(string \<times> directory) list"

text \<open>
  The file system maps the path of a directory to its entries (name and content), both
  association lists with distinct keys. Path strings are compared up to trailing
  separators; other aliasing (repeated separators, \<^verbatim>\<open>.\<close>, \<^verbatim>\<open>..\<close>, links) and
  the listing of sub-directories inside their parent are not modelled.
\<close>

record world =
  files :: filesystem
  requests :: "request list"
  stdout :: "event list"
  stdin_pos :: nat
  rng_pos :: nat

record env =
  env_api_key :: "string option"
  env_stdin :: "nat \<Rightarrow> string option"
  env_random :: "nat \<Rightarrow> nat"
  env_format :: "string \<Rightarrow> string \<Rightarrow> string \<Rightarrow> string \<Rightarrow> py_error + string"
  env_post :: "nat \<Rightarrow> request \<Rightarrow> post_outcome"
  env_b64decode :: "string \<Rightarrow> py_error + bytes"
  env_image_open :: "bytes \<Rightarrow> py_error + image"
  env_image_resize :: "image \<Rightarrow> image"
  env_image_save :: "image \<Rightarrow> string \<Rightarrow> py_error + bytes"
  env_task_order :: "string \<Rightarrow> nat list"
  env_group_order :: "nat list"

text \<open>
  \<^item> \<open>env_stdin i\<close> is the \<open>i\<close>-th line typed at the terminal, \<open>None\<close> at end of input;
  \<^item> \<open>env_random k\<close> is the \<open>k\<close>-th draw of the random source;
  \<^item> \<open>env_format template country facial_characteristics hair\<close> is \<^verbatim>\<open>str.format\<close>
    with these keyword arguments;
  \<^item> \<open>env_post k r\<close> is the outcome of the \<open>k\<close>-th request issued, \<open>r\<close>;
  \<^item> \<open>env_image_open\<close>, \<open>env_image_resize\<close>, \<open>env_image_save\<close> are PIL's
    \<^verbatim>\<open>Image.open\<close>, \<^verbatim>\<open>resize((256, 256), LANCZOS)\<close> and the encoding done by
    \<^verbatim>\<open>image.save(path)\<close>; a save that raises is taken to leave no file behind;
  \<^item> \<open>env_task_order g\<close> and \<open>env_group_order\<close> give the order in which the concurrent
    requests of group \<open>g\<close>, and the groups, complete.
\<close>

section \<open>Strings and paths\<close>

definition digit_char :: "nat \<Rightarrow> char" where
  "digit_char d = ''0123456789'' ! d"

function str_nat :: "nat \<Rightarrow> string" where
  "str_nat n = (if n < 10 then [digit_char n] else str_nat (n div 10) @ [digit_char (n mod 10)])"
  by pat_completeness auto
termination
  by (relation "measure (\<lambda>n. n)") auto

declare str_nat.simps [simp del]

definition endswith :: "string \<Rightarrow> string \<Rightarrow> bool" where
  "endswith s suf = (length suf \<le> length s \<and> drop (length s - length suf) s = suf)"

fun split_on :: "char \<Rightarrow> string \<Rightarrow> string list" where
  "split_on sep [] = [[]]"
| "split_on sep (c # cs) =
     (if c = sep then [] # split_on sep cs
      else (case split_on sep cs of [] \<Rightarrow> [[c]] | p # ps \<Rightarrow> (c # p) # ps))"

text \<open>
  \<^verbatim>\<open>str.lower\<close> and \<^verbatim>\<open>str.strip\<close> on ASCII: the letters \<open>A\<close> to \<open>Z\<close>, and the
  white space of \<^verbatim>\<open>str.isspace\<close> below 128.
\<close>

definition lower_char :: "char \<Rightarrow> char" where
  "lower_char c =
     (case map_of (zip ''ABCDEFGHIJKLMNOPQRSTUVWXYZ'' ''abcdefghijklmnopqrstuvwxyz'') c of
        None \<Rightarrow> c | Some l \<Rightarrow> l)"

definition lower :: "string \<Rightarrow> string" where
  "lower s = map lower_char s"

definition isspace :: "char \<Rightarrow> bool" where
  "isspace c = (c \<in> set [CHR 0x09, CHR 0x0A, CHR 0x0B, CHR 0x0C, CHR 0x0D,
                         CHR 0x1C, CHR 0x1D, CHR 0x1E, CHR 0x1F, CHR '' ''])"

definition strip :: "string \<Rightarrow> string" where
  "strip s = rev (dropWhile isspace (rev (dropWhile isspace s)))"

definition is_sep :: "char \<Rightarrow> bool" where
  "is_sep c = (c = CHR ''/'')"

definition rstrip_sep :: "string \<Rightarrow> string" where
  "rstrip_sep p = (if p \<noteq> [] \<and> \<not> list_all is_sep p then rev (dropWhile is_sep (rev p)) else p)"

text \<open>\<^verbatim>\<open>os.path.join(a, b)\<close> and \<^verbatim>\<open>os.path.split(p)\<close> of \<^verbatim>\<open>posixpath\<close>.\<close>

definition path_join :: "string \<Rightarrow> string \<Rightarrow> string" where
  "path_join a b =
     (if b \<noteq> [] \<and> hd b = CHR ''/'' then b
      else if a = [] \<or> last a = CHR ''/'' then a @ b
      else a @ ''/'' @ b)"

definition path_split :: "string \<Rightarrow> string \<times> string" where
  "path_split p =
     (rstrip_sep (rev (dropWhile (\<lambda>c. \<not> is_sep c) (rev p))),
      rev (takeWhile (\<lambda>c. \<not> is_sep c) (rev p)))"

section \<open>File system primitives\<close>

text \<open>
  \<^verbatim>\<open>os.makedirs(path, exist_ok=True)\<close> is taken to succeed; \<^verbatim>\<open>os.listdir\<close> raises on
  a directory that does not exist.
\<close>

definition makedirs :: "filesystem \<Rightarrow> string \<Rightarrow> filesystem" where
  "makedirs f path =
     (case map_of f (rstrip_sep path) of
        None \<Rightarrow> f @ [(rstrip_sep path, [])]
      | Some _ \<Rightarrow> f)"

definition listdir :: "filesystem \<Rightarrow> string \<Rightarrow> py_error + string list" where
  "listdir f path =
     (case map_of f (rstrip_sep path) of
        None \<Rightarrow> Inl OSError
      | Some d \<Rightarrow> Inr (map fst d))"

text \<open>
  Writing a file creates or replaces the entry named by the last component of the path,
  in the directory named by the rest; that directory must exist.
\<close>

definition write_file :: "filesystem \<Rightarrow> string \<Rightarrow> bytes \<Rightarrow> py_error + filesystem" where
  "write_file f full_path content =
     (case path_split full_path of
        (dir, name) \<Rightarrow>
          (if name = [] then Inl OSError
           else case map_of f dir of
                  None \<Rightarrow> Inl OSError
                | Some d \<Rightarrow> Inr (AList.update dir (AList.update name content d) f)))"

definition read_file :: "filesystem \<Rightarrow> string \<Rightarrow> string \<Rightarrow> bytes option" where
  "read_file f folder name =
     (case map_of f (rstrip_sep folder) of None \<Rightarrow> None | Some d \<Rightarrow> map_of d name)"

section \<open>Generation Client: generate_image\<close>

definition getitem_key :: "json \<Rightarrow> string \<Rightarrow> py_error + json" where
  "getitem_key v k =
     (case v of
        JObject kvs \<Rightarrow> (case map_of kvs k of None \<Rightarrow> Inl KeyError | Some x \<Rightarrow> Inr x)
      | _ \<Rightarrow> Inl TypeError)"

definition getitem_0 :: "json \<Rightarrow> py_error + json" where
  "getitem_0 v =
     (case v of
        JArray xs \<Rightarrow> (case xs of [] \<Rightarrow> Inl IndexError | x # _ \<Rightarrow> Inr x)
      | JString s \<Rightarrow> (case s of [] \<Rightarrow> Inl IndexError | c # _ \<Rightarrow> Inr (JString [c]))
      | JObject kvs \<Rightarrow> Inl KeyError
      | _ \<Rightarrow> Inl TypeError)"

definition split_comma_1 :: "json \<Rightarrow> py_error + string" where
  "split_comma_1 v =
     (case v of
        JString s \<Rightarrow>
          (case split_on CHR '','' s of
             _ # part # _ \<Rightarrow> Inr part
           | _ \<Rightarrow> Inl IndexError)
      | _ \<Rightarrow> Inl AttributeError)"

text \<open>Lines 58-61: the body of the branch \<^verbatim>\<open>response.status == 200\<close>.\<close>

definition decode_response :: "env \<Rightarrow> json option \<Rightarrow> py_error + bytes option" where
  "decode_response env body =
     (case body of
        None \<Rightarrow> Inl JSONDecodeError
      | Some response_data \<Rightarrow>
          (case getitem_key response_data ''images'' of
             Inl e \<Rightarrow> Inl e
           | Inr images \<Rightarrow>
               (case getitem_0 images of
                  Inl e \<Rightarrow> Inl e
                | Inr first \<Rightarrow>
                    (case split_comma_1 first of
                       Inl e \<Rightarrow> Inl e
                     | Inr image_data \<Rightarrow>
                         (case env_b64decode env image_data of
                            Inl e \<Rightarrow> Inl e
                          | Inr image_bytes \<Rightarrow> Inr (Some image_bytes))))))"

definition model_url :: "string \<Rightarrow> string option" where
  "model_url model =
     (if model = ''schnell''
        then Some ''https://api.deepinfra.com/v1/inference/black-forest-labs/FLUX-1-schnell''
      else if model = ''dev''
        then Some ''https://api.deepinfra.com/v1/inference/black-forest-labs/FLUX-1-dev''
      else None)"

definition bearer :: "string option \<Rightarrow> string" where
  "bearer api_key = ''Bearer '' @ (case api_key of None \<Rightarrow> ''None'' | Some k \<Rightarrow> k)"

definition generate_image ::
  "env \<Rightarrow> world \<Rightarrow> string option \<Rightarrow> string \<Rightarrow> int \<Rightarrow> int \<Rightarrow> int \<Rightarrow> string
     \<Rightarrow> (py_error + bytes option) \<times> world" where
  "generate_image env w api_key prompt width height num_inference_steps model =
     (case model_url model of
        None \<Rightarrow> (Inr None, w)
      | Some url \<Rightarrow>
          (let data = \<lparr>req_url = url, req_authorization = bearer api_key, req_prompt = prompt,
                        req_width = width, req_height = height,
                        req_num_inference_steps = num_inference_steps\<rparr>;
               w1 = w\<lparr>requests := requests w @ [data]\<rparr>
           in case env_post env (length (requests w)) data of
                TransportFailure \<Rightarrow> (Inl ClientError, w1)
              | Response status body \<Rightarrow>
                  (if status = 200 then (decode_response env body, w1)
                   else (Inr None, w1))))"

section \<open>Persistence: save_image and the Output Namer\<close>

definition truthy :: "bytes option \<Rightarrow> bool" where
  "truthy image_bytes = (case image_bytes of None \<Rightarrow> False | Some b \<Rightarrow> b \<noteq> [])"

definition save_image ::
  "env \<Rightarrow> world \<Rightarrow> bytes option \<Rightarrow> string \<Rightarrow> string \<Rightarrow> bool \<Rightarrow> (py_error + unit) \<times> world" where
  "save_image env w image_bytes folder filename resize =
     (if truthy image_bytes then
        (let w1 = w\<lparr>files := makedirs (files w) folder\<rparr>;
             full_path = path_join folder filename
         in case env_image_open env (the image_bytes) of
              Inl e \<Rightarrow> (Inl e, w1)
            | Inr opened \<Rightarrow>
                (let image = (if resize then env_image_resize env opened else opened)
                 in case env_image_save env image full_path of
                      Inl e \<Rightarrow> (Inl e, w1)
                    | Inr encoded \<Rightarrow>
                        (case write_file (files w1) full_path encoded of
                           Inl e \<Rightarrow> (Inl e, w1)
                         | Inr f \<Rightarrow>
                             (Inr (), w1\<lparr>files := f,
                                          stdout := stdout w1 @ [ImageSaved full_path]\<rparr>))))
      else (Inr (), w\<lparr>stdout := stdout w @ [FailedToGenerateOrSave]\<rparr>))"

definition get_next_image_number :: "world \<Rightarrow> string \<Rightarrow> (py_error + nat) \<times> world" where
  "get_next_image_number w folder =
     (let w1 = w\<lparr>files := makedirs (files w) folder\<rparr>
      in case listdir (files w1) folder of
           Inl e \<Rightarrow> (Inl e, w1)
         | Inr names \<Rightarrow>
             (let existing_files = filter (\<lambda>f. endswith f ''.png'') names
              in (Inr (length existing_files + 1), w1)))"

section \<open>Cost Estimator and confirmation gate\<close>

record config =
  cfg_countries :: "(string \<times> string list) list"
  cfg_facial_characteristics :: "string option list"
  cfg_hair :: "string list"
  cfg_prompt :: string

record args =
  arg_n_per_country :: int
  arg_width :: int
  arg_height :: int
  arg_num_inference_steps :: int
  arg_model :: string
  arg_resize :: bool

definition calculate_total_images :: "config \<Rightarrow> int \<Rightarrow> int" where
  "calculate_total_images config n_per_country =
     int (length (cfg_countries config)) * n_per_country"

definition calculate_cost :: "int \<Rightarrow> int \<Rightarrow> int \<Rightarrow> real" where
  "calculate_cost width height num_inference_steps =
     0.0005 * (real_of_int width / 1024) * (real_of_int height / 1024)
       * real_of_int num_inference_steps"

text \<open>
  The loop of \<^verbatim>\<open>ask_user_confirmation\<close> runs until an answer is accepted; it may run
  forever, so not returning is the value \<open>None\<close>.
\<close>

partial_function (option) ask_loop :: "env \<Rightarrow> world \<Rightarrow> ((py_error + bool) \<times> world) option" where
  "ask_loop env w =
     (case env_stdin env (stdin_pos w) of
        None \<Rightarrow> Some (Inl EOFError, w\<lparr>stdout := stdout w @ [AskProceed]\<rparr>)
      | Some line \<Rightarrow>
          (let response = strip (lower line);
               w1 = w\<lparr>stdin_pos := Suc (stdin_pos w), stdout := stdout w @ [AskProceed]\<rparr>
           in if response \<in> set [''yes'', ''y''] then Some (Inr True, w1)
              else if response \<in> set [''no'', ''n''] then Some (Inr False, w1)
              else ask_loop env (w1\<lparr>stdout := stdout w1 @ [PleaseAnswer]\<rparr>)))"

definition ask_user_confirmation ::
  "env \<Rightarrow> world \<Rightarrow> int \<Rightarrow> real \<Rightarrow> ((py_error + bool) \<times> world) option" where
  "ask_user_confirmation env w total_images total_cost =
     ask_loop env (w\<lparr>stdout := stdout w @ [PotentialCost total_cost total_images]\<rparr>)"

section \<open>Group Orchestrator: generate_images_for_country_group\<close>

text \<open>\<^verbatim>\<open>random.choice\<close>: raises on an empty sequence, else consumes one draw.\<close>

definition choice :: "env \<Rightarrow> world \<Rightarrow> 'a list \<Rightarrow> (py_error + 'a) \<times> world" where
  "choice env w xs =
     (if xs = [] then (Inl IndexError, w)
      else (Inr (xs ! (env_random env (rng_pos w) mod length xs)),
            w\<lparr>rng_pos := Suc (rng_pos w)\<rparr>))"

text \<open>Lines 113-123: one prompt, from three random picks and the template.\<close>

definition build_prompt :: "env \<Rightarrow> world \<Rightarrow> config \<Rightarrow> string \<Rightarrow> (py_error + string) \<times> world" where
  "build_prompt env w config country_group =
     (case map_of (cfg_countries config) country_group of
        None \<Rightarrow> (Inl KeyError, w)
      | Some pool \<Rightarrow>
          (case choice env w pool of
             (Inl e, w1) \<Rightarrow> (Inl e, w1)
           | (Inr country, w1) \<Rightarrow>
               (case choice env w1 (cfg_facial_characteristics config) of
                  (Inl e, w2) \<Rightarrow> (Inl e, w2)
                | (Inr facial_characteristics, w2) \<Rightarrow>
                    (case choice env w2 (cfg_hair config) of
                       (Inl e, w3) \<Rightarrow> (Inl e, w3)
                     | (Inr hair, w3) \<Rightarrow>
                         (case env_format env (cfg_prompt config) country
                                 (case facial_characteristics of
                                    None \<Rightarrow> ''no facial hair''
                                  | Some s \<Rightarrow> if s = [] then ''no facial hair'' else s)
                                 hair of
                            Inl e \<Rightarrow> (Inl e, w3)
                          | Inr prompt \<Rightarrow>
                              (Inr prompt,
                               w3\<lparr>stdout := stdout w3 @ [GeneratedPrompt prompt]\<rparr>))))))"

text \<open>
  Lines 111-134, the loop \<^verbatim>\<open>for i in range(n_per_country)\<close>: each round builds a prompt
  and creates a task; the task itself runs later. The result is the prompts of the tasks
  created, in order.
\<close>

fun create_tasks ::
  "env \<Rightarrow> config \<Rightarrow> string \<Rightarrow> nat \<Rightarrow> world \<Rightarrow> (py_error + string list) \<times> world" where
  "create_tasks env config country_group 0 w = (Inr [], w)"
| "create_tasks env config country_group (Suc k) w =
     (case build_prompt env w config country_group of
        (Inl e, w1) \<Rightarrow> (Inl e, w1)
      | (Inr prompt, w1) \<Rightarrow>
          (case create_tasks env config country_group k w1 of
             (Inl e, w2) \<Rightarrow> (Inl e, w2)
           | (Inr prompts, w2) \<Rightarrow> (Inr (prompt # prompts), w2)))"

text \<open>Lines 107-134: what the group coroutine does before it first suspends.\<close>

definition group_launch ::
  "env \<Rightarrow> world \<Rightarrow> string \<Rightarrow> config \<Rightarrow> int \<Rightarrow> (py_error + string list) \<times> world" where
  "group_launch env w country_group config n_per_country =
     (let w1 = w\<lparr>stdout := stdout w @ [GeneratingFor country_group]\<rparr>;
          folder_name = ''generated_images/'' @ country_group;
          w2 = w1\<lparr>files := makedirs (files w1) folder_name\<rparr>
      in create_tasks env config country_group (nat n_per_country) w2)"

text \<open>
  The tasks created run in the order of their creation up to their request; each task's
  result is what \<open>generate_image\<close> returns or raises.
\<close>

fun run_tasks ::
  "env \<Rightarrow> int \<Rightarrow> int \<Rightarrow> int \<Rightarrow> string \<Rightarrow> string list \<Rightarrow> world
     \<Rightarrow> (py_error + bytes option) list \<times> world" where
  "run_tasks env width height num_inference_steps model [] w = ([], w)"
| "run_tasks env width height num_inference_steps model (prompt # prompts) w =
     (case generate_image env w (env_api_key env) prompt width height num_inference_steps model of
        (r, w1) \<Rightarrow>
          (case run_tasks env width height num_inference_steps model prompts w1 of
             (rs, w2) \<Rightarrow> (r # rs, w2)))"

text \<open>
  \<^verbatim>\<open>asyncio.gather\<close>: when a task raises, the exception raised first in time is
  propagated; otherwise the results are returned in the order of the tasks, whatever the
  order of completion. \<open>completion_sequence order n\<close> reads any list as an order of
  completion of \<open>n\<close> tasks: the tasks it names, then the others.
\<close>

definition completion_sequence :: "nat list \<Rightarrow> nat \<Rightarrow> nat list" where
  "completion_sequence order n =
     remdups (filter (\<lambda>i. i < n) order) @ filter (\<lambda>i. i \<notin> set order) [0..<n]"

fun first_error :: "(py_error + 'a) list \<Rightarrow> py_error option" where
  "first_error [] = None"
| "first_error (Inl e # rs) = Some e"
| "first_error (Inr v # rs) = first_error rs"

fun rights :: "(py_error + 'a) list \<Rightarrow> 'a list" where
  "rights [] = []"
| "rights (Inl e # rs) = rights rs"
| "rights (Inr v # rs) = v # rights rs"

definition gather :: "nat list \<Rightarrow> (py_error + 'a) list \<Rightarrow> py_error + 'a list" where
  "gather order results =
     (case first_error (map (\<lambda>i. results ! i) (completion_sequence order (length results))) of
        Some e \<Rightarrow> Inl e
      | None \<Rightarrow> Inr (rights results))"

text \<open>Lines 138-142: the loop that names and saves the images gathered.\<close>

fun save_images ::
  "env \<Rightarrow> string \<Rightarrow> string \<Rightarrow> bool \<Rightarrow> bytes option list \<Rightarrow> world \<Rightarrow> (py_error + unit) \<times> world" where
  "save_images env country_group folder_name resize [] w = (Inr (), w)"
| "save_images env country_group folder_name resize (image_bytes # rest) w =
     (if truthy image_bytes then
        (case get_next_image_number w folder_name of
           (Inl e, w1) \<Rightarrow> (Inl e, w1)
         | (Inr next_number, w1) \<Rightarrow>
             (let file_name = country_group @ str_nat next_number @ ''.png''
              in case save_image env w1 image_bytes folder_name file_name resize of
                   (Inl e, w2) \<Rightarrow> (Inl e, w2)
                 | (Inr u, w2) \<Rightarrow> save_images env country_group folder_name resize rest w2))
      else save_images env country_group folder_name resize rest w)"

text \<open>Lines 136-145: what the group coroutine does once its requests have completed.\<close>

definition group_collect ::
  "env \<Rightarrow> world \<Rightarrow> string \<Rightarrow> bool \<Rightarrow> (py_error + bytes option) list \<Rightarrow> (py_error + int) \<times> world" where
  "group_collect env w country_group resize results =
     (let folder_name = ''generated_images/'' @ country_group
      in case gather (env_task_order env country_group) results of
           Inl e \<Rightarrow> (Inl e, w)
         | Inr image_bytes_list \<Rightarrow>
             (case save_images env country_group folder_name resize image_bytes_list w of
                (Inl e, w1) \<Rightarrow> (Inl e, w1)
              | (Inr u, w1) \<Rightarrow>
                  (Inr (int (length (filter (\<lambda>img. img \<noteq> None) image_bytes_list))), w1)))"

text \<open>One batch on its own: launch, the requests, then collection.\<close>

definition generate_images_for_country_group ::
  "env \<Rightarrow> world \<Rightarrow> string \<Rightarrow> config \<Rightarrow> int \<Rightarrow> int \<Rightarrow> int \<Rightarrow> int \<Rightarrow> string \<Rightarrow> bool
     \<Rightarrow> (py_error + int) \<times> world" where
  "generate_images_for_country_group env w country_group config n_per_country
       width height num_inference_steps model resize =
     (case group_launch env w country_group config n_per_country of
        (Inl e, w1) \<Rightarrow> (Inl e, w1)
      | (Inr prompts, w1) \<Rightarrow>
          (case run_tasks env width height num_inference_steps model prompts w1 of
             (results, w2) \<Rightarrow> group_collect env w2 country_group resize results))"

section \<open>Run Orchestrator: main\<close>

text \<open>
  The event loop runs the group coroutines in the order of their creation up to their
  first suspension (\<open>launch_groups\<close>), then the request tasks in the order of their
  creation (\<open>run_groups\<close>), then resumes each group when its requests have completed
  (\<open>collect_groups\<close>, in the order of completion). An exception ends the run at the point
  where it is raised. Parsing the command line and loading \<^verbatim>\<open>config.json\<close> are outside
  the model: \<open>main\<close> takes the parsed arguments and the loaded configuration.
\<close>

fun launch_groups ::
  "env \<Rightarrow> config \<Rightarrow> int \<Rightarrow> string list \<Rightarrow> world
     \<Rightarrow> (py_error + (string \<times> string list) list) \<times> world" where
  "launch_groups env config n_per_country [] w = (Inr [], w)"
| "launch_groups env config n_per_country (country_group # groups) w =
     (case group_launch env w country_group config n_per_country of
        (Inl e, w1) \<Rightarrow> (Inl e, w1)
      | (Inr prompts, w1) \<Rightarrow>
          (case launch_groups env config n_per_country groups w1 of
             (Inl e, w2) \<Rightarrow> (Inl e, w2)
           | (Inr launched, w2) \<Rightarrow> (Inr ((country_group, prompts) # launched), w2)))"

fun run_groups ::
  "env \<Rightarrow> args \<Rightarrow> (string \<times> string list) list \<Rightarrow> world
     \<Rightarrow> (string \<times> (py_error + bytes option) list) list \<times> world" where
  "run_groups env a [] w = ([], w)"
| "run_groups env a ((country_group, prompts) # launched) w =
     (case run_tasks env (arg_width a) (arg_height a) (arg_num_inference_steps a)
             (arg_model a) prompts w of
        (results, w1) \<Rightarrow>
          (case run_groups env a launched w1 of
             (answered, w2) \<Rightarrow> ((country_group, results) # answered, w2)))"

fun collect_groups ::
  "env \<Rightarrow> bool \<Rightarrow> (string \<times> (py_error + bytes option) list) list \<Rightarrow> world
     \<Rightarrow> (py_error + int list) \<times> world" where
  "collect_groups env resize [] w = (Inr [], w)"
| "collect_groups env resize ((country_group, results) # answered) w =
     (case group_collect env w country_group resize results of
        (Inl e, w1) \<Rightarrow> (Inl e, w1)
      | (Inr k, w1) \<Rightarrow>
          (case collect_groups env resize answered w1 of
             (Inl e, w2) \<Rightarrow> (Inl e, w2)
           | (Inr ks, w2) \<Rightarrow> (Inr (k # ks), w2)))"

text \<open>
  How a run ends: it returns from \<open>main\<close> (with the values of \<^verbatim>\<open>generated_images\<close> and
  \<^verbatim>\<open>actual_cost\<close> it printed), it calls \<^verbatim>\<open>sys.exit\<close>, or an exception is not caught.
\<close>

datatype outcome = Completed int real | SystemExit int | Uncaught py_error

definition exit_status :: "outcome \<Rightarrow> int" where
  "exit_status out = (case out of Completed g c \<Rightarrow> 0 | SystemExit code \<Rightarrow> code | Uncaught e \<Rightarrow> 1)"

text \<open>Lines 168-186: the run after the confirmation.\<close>

definition main_generate :: "env \<Rightarrow> args \<Rightarrow> config \<Rightarrow> world \<Rightarrow> outcome \<times> world" where
  "main_generate env a config w =
     (case launch_groups env config (arg_n_per_country a) (map fst (cfg_countries config)) w of
        (Inl e, w1) \<Rightarrow> (Uncaught e, w1)
      | (Inr launched, w1) \<Rightarrow>
          (case run_groups env a launched w1 of
             (answered, w2) \<Rightarrow>
               (case collect_groups env (arg_resize a)
                       (map (\<lambda>i. answered ! i) (completion_sequence (env_group_order env) (length answered)))
                       w2 of
                  (Inl e, w3) \<Rightarrow> (Uncaught e, w3)
                | (Inr results, w3) \<Rightarrow>
                    (let generated_images = sum_list results;
                         actual_cost = real_of_int generated_images
                           * calculate_cost (arg_width a) (arg_height a)
                               (arg_num_inference_steps a)
                     in (Completed generated_images actual_cost,
                         w3\<lparr>stdout := stdout w3 @ [GenerationComplete,
                               TotalGenerated generated_images, ActualCost actual_cost]\<rparr>)))))"

definition planned_cost :: "args \<Rightarrow> config \<Rightarrow> real" where
  "planned_cost a config =
     real_of_int (calculate_total_images config (arg_n_per_country a))
       * calculate_cost (arg_width a) (arg_height a) (arg_num_inference_steps a)"

text \<open>Lines 161-186; \<open>None\<close> when the confirmation loop never returns.\<close>

definition main :: "env \<Rightarrow> args \<Rightarrow> config \<Rightarrow> world \<Rightarrow> (outcome \<times> world) option" where
  "main env a config w =
     (let total_images = calculate_total_images config (arg_n_per_country a);
          total_cost = real_of_int total_images
            * calculate_cost (arg_width a) (arg_height a) (arg_num_inference_steps a)
      in case ask_user_confirmation env w total_images total_cost of
           None \<Rightarrow> None
         | Some (Inl e, w1) \<Rightarrow> Some (Uncaught e, w1)
         | Some (Inr proceed, w1) \<Rightarrow>
             (if \<not> proceed
              then Some (SystemExit 0, w1\<lparr>stdout := stdout w1 @ [OperationCancelled]\<rparr>)
              else Some (main_generate env a config w1)))"

section \<open>Notions used in the statements\<close>

text \<open>
  How lines 95-100 read one answer: \<open>Some True\<close> for an affirmative, \<open>Some False\<close> for a
  negative, \<open>None\<close> for anything else.
\<close>

definition answer_of :: "string \<Rightarrow> bool option" where
  "answer_of line =
     (let response = strip (lower line)
      in if response \<in> set [''yes'', ''y''] then Some True
         else if response \<in> set [''no'', ''n''] then Some False
         else None)"


text \<open>
  \<open>asked env w k y\<close>: from world \<open>w\<close> the confirmation loop reads \<open>k\<close> lines that are
  neither affirmative nor negative, reprompting after each, and then ends with \<open>y\<close>: on
  the next line when it is an answer, or with \<^verbatim>\<open>EOFError\<close> when there is none.
\<close>

definition asked :: "env \<Rightarrow> world \<Rightarrow> nat \<Rightarrow> (py_error + bool) \<times> world \<Rightarrow> bool" where
  "asked env w k y =
     ((\<forall>j<k. \<exists>l. env_stdin env (stdin_pos w + j) = Some l \<and> answer_of l = None)
        \<and> (case env_stdin env (stdin_pos w + k) of
             None \<Rightarrow> fst y = Inl EOFError \<and> stdin_pos (snd y) = stdin_pos w + k
           | Some l \<Rightarrow> (\<exists>b. answer_of l = Some b \<and> fst y = Inr b) \<and> stdin_pos (snd y) = stdin_pos w + k + 1)
        \<and> files (snd y) = files w \<and> requests (snd y) = requests w \<and> rng_pos (snd y) = rng_pos w
        \<and> stdout (snd y) = stdout w @ concat (replicate k [AskProceed, PleaseAnswer]) @ [AskProceed])"


text \<open>
  \<open>answered_200 env k reqs\<close> counts the requests of \<open>reqs\<close>, issued as the \<open>k\<close>-th and
  following, that the server answers with status 200; \<open>count_images\<close> is the count computed
  at line 145.
\<close>

definition is_200 :: "post_outcome \<Rightarrow> bool" where
  "is_200 out = (case out of TransportFailure \<Rightarrow> False | Response status body \<Rightarrow> status = 200)"

fun answered_200 :: "env \<Rightarrow> nat \<Rightarrow> request list \<Rightarrow> nat" where
  "answered_200 env k [] = 0"
| "answered_200 env k (r # rs) = (if is_200 (env_post env k r) then 1 else 0) + answered_200 env (Suc k) rs"

definition count_images :: "bytes option list \<Rightarrow> nat" where
  "count_images imgs = length (filter (\<lambda>img. img \<noteq> None) imgs)"


text \<open>The entries of a directory, none when it does not exist.\<close>

definition entries :: "filesystem \<Rightarrow> string \<Rightarrow> directory" where
  "entries f folder = (case map_of f (rstrip_sep folder) of None \<Rightarrow> [] | Some d \<Rightarrow> d)"

text \<open>
  The sentence of the specification on the Output Namer, in its own words: the next index
  is the count of the files already present that match the naming pattern of the group,
  \<open>{group}{index}.png\<close>, plus one.
\<close>

definition matches_group_pattern :: "string \<Rightarrow> string \<Rightarrow> bool" where
  "matches_group_pattern grp f =
     (let index = take (length f - length grp - 4) (drop (length grp) f)
      in take (length grp) f = grp \<and> endswith f ''.png''
         \<and> length grp + 4 < length f
         \<and> list_all (\<lambda>c. c \<in> set ''0123456789'') index)"

definition spec_next_index :: "string \<Rightarrow> string list \<Rightarrow> nat" where
  "spec_next_index grp names = length (filter (matches_group_pattern grp) names) + 1"

section \<open>Concrete runs\<close>

text \<open>
  A small environment used to run the model on concrete inputs: every request is answered
  with status 200 and one image, decoding is the identity, the payload \<open>''XX''\<close> is not an
  image, and the user types \<open>yes\<close>.
\<close>

definition sample_env :: env where
  "sample_env =
     \<lparr>env_api_key = Some ''k'',
      env_stdin = (\<lambda>i. Some ''yes''),
      env_random = (\<lambda>k. 0),
      env_format = (\<lambda>template country facial hair. Inr (template @ country)),
      env_post = (\<lambda>k r. Response 200 (Some (JObject [(''images'', JArray [JString ''png,AB''])]))),
      env_b64decode = (\<lambda>s. Inr s),
      env_image_open = (\<lambda>b. if b = ''XX'' then Inl UnidentifiedImageError else Inr b),
      env_image_resize = (\<lambda>i. i),
      env_image_save = (\<lambda>i p. Inr i),
      env_task_order = (\<lambda>g. []),
      env_group_order = []\<rparr>"

definition empty_world :: world where
  "empty_world = \<lparr>files = [], requests = [], stdout = [], stdin_pos = 0, rng_pos = 0\<rparr>"

definition sample_args :: args where
  "sample_args =
     \<lparr>arg_n_per_country = 1, arg_width = 512, arg_height = 512,
      arg_num_inference_steps = 1, arg_model = ''schnell'', arg_resize = False\<rparr>"

definition sample_config :: config where
  "sample_config =
     \<lparr>cfg_countries = [(''nordic'', [''Norway''])], cfg_facial_characteristics = [None],
      cfg_hair = [''short''], cfg_prompt = ''a person from ''\<rparr>"



text \<open>
  Worlds with a directory for a group: holding two numbered images, holding one other
  picture, and empty.
\<close>

definition group_a_world :: world where
  "group_a_world =
     empty_world\<lparr>files := [(''generated_images/groupA'',
        [(''groupA1.png'', ''one''), (''groupA2.png'', ''two'')])]\<rparr>"

definition portrait_world :: world where
  "portrait_world =
     empty_world\<lparr>files := [(''generated_images/groupA'', [(''portrait.png'', ''p'')])]\<rparr>"

definition nordic_world :: world where
  "nordic_world = empty_world\<lparr>files := [(''generated_images/nordic'', [])]\<rparr>"

text \<open>
  The sample environment with three requests of a group completing in the order 2, 0, 1,
  and one whose server sends a payload that is not an image.
\<close>

definition shuffled_env :: env where
  "shuffled_env = sample_env\<lparr>env_task_order := (\<lambda>g. [2, 0, 1])\<rparr>"

definition broken_env :: env where
  "broken_env =
     sample_env\<lparr>env_post :=
       (\<lambda>k r. Response 200 (Some (JObject [(''images'', JArray [JString ''png,XX''])])))\<rparr>"

section \<open>Evaluation\<close>

lemmas eval_defs =
  main_def main_generate_def ask_user_confirmation_def calculate_total_images_def
  calculate_cost_def group_launch_def group_collect_def gather_def completion_sequence_def
  build_prompt_def choice_def generate_image_def model_url_def bearer_def decode_response_def
  getitem_key_def getitem_0_def split_comma_1_def save_image_def get_next_image_number_def
  truthy_def makedirs_def listdir_def write_file_def read_file_def path_split_def
  path_join_def rstrip_sep_def is_sep_def endswith_def strip_def lower_def lower_char_def
  isspace_def digit_char_def exit_status_def
  sample_env_def sample_args_def sample_config_def empty_world_def Let_def

section \<open>Lemmas: the confirmation loop\<close>



lemma ask_body_eq:
  "(case env_stdin env (stdin_pos w) of
        None \<Rightarrow> Some (Inl EOFError, w\<lparr>stdout := stdout w @ [AskProceed]\<rparr>)
      | Some line \<Rightarrow>
          (let response = strip (lower line);
               w1 = w\<lparr>stdin_pos := Suc (stdin_pos w), stdout := stdout w @ [AskProceed]\<rparr>
           in if response \<in> set [''yes'', ''y''] then Some (Inr True, w1)
              else if response \<in> set [''no'', ''n''] then Some (Inr False, w1)
              else f env (w1\<lparr>stdout := stdout w1 @ [PleaseAnswer]\<rparr>)))
   = (case env_stdin env (stdin_pos w) of
        None \<Rightarrow> Some (Inl EOFError, w\<lparr>stdout := stdout w @ [AskProceed]\<rparr>)
      | Some line \<Rightarrow>
          (case answer_of line of
             Some b \<Rightarrow> Some (Inr b, w\<lparr>stdin_pos := Suc (stdin_pos w), stdout := stdout w @ [AskProceed]\<rparr>)
           | None \<Rightarrow> f env (w\<lparr>stdin_pos := Suc (stdin_pos w),
                                      stdout := stdout w @ [AskProceed, PleaseAnswer]\<rparr>)))"
  by (simp add: answer_of_def Let_def split: option.splits)

lemma asked_Suc:
  assumes "env_stdin env (stdin_pos w) = Some line" "answer_of line = None"
    and "asked env (w\<lparr>stdin_pos := Suc (stdin_pos w), stdout := stdout w @ [AskProceed, PleaseAnswer]\<rparr>) k y"
  shows "asked env w (Suc k) y"
proof -
  have "\<exists>l. env_stdin env (stdin_pos w + j) = Some l \<and> answer_of l = None" if "j < Suc k" for j
  proof (cases j)
    case 0
    with assms(1,2) show ?thesis by simp
  next
    case (Suc j')
    with that assms(3) show ?thesis by (simp add: asked_def)
  qed
  then show ?thesis using assms(3) by (simp add: asked_def split: option.splits)
qed

lemma ask_loop_returns:
  assumes "ask_loop env w = Some y"
  shows "\<exists>k. asked env w k y"
proof (rule ask_loop.raw_induct[where P = "\<lambda>env w y. \<exists>k. asked env w k y", OF _ assms])
  fix f env w y
  assume IH: "\<And>env w y. f env w = Some y \<Longrightarrow> \<exists>k. asked env w k y"
  assume raw: "(case env_stdin env (stdin_pos w) of
        None \<Rightarrow> Some (Inl EOFError, w\<lparr>stdout := stdout w @ [AskProceed]\<rparr>)
      | Some line \<Rightarrow>
          (let response = strip (lower line);
               w1 = w\<lparr>stdin_pos := Suc (stdin_pos w), stdout := stdout w @ [AskProceed]\<rparr>
           in if response \<in> set [''yes'', ''y''] then Some (Inr True, w1)
              else if response \<in> set [''no'', ''n''] then Some (Inr False, w1)
              else f env (w1\<lparr>stdout := stdout w1 @ [PleaseAnswer]\<rparr>))) = Some y"
  note body = raw[unfolded ask_body_eq]
  show "\<exists>k. asked env w k y"
  proof (cases "env_stdin env (stdin_pos w)")
    case None
    with body have "y = (Inl EOFError, w\<lparr>stdout := stdout w @ [AskProceed]\<rparr>)" by simp
    with None have "asked env w 0 y" by (simp add: asked_def)
    then show ?thesis ..
  next
    case (Some line)
    note line = Some
    show ?thesis
    proof (cases "answer_of line")
      case (Some b)
      with body line
      have "y = (Inr b, w\<lparr>stdin_pos := Suc (stdin_pos w), stdout := stdout w @ [AskProceed]\<rparr>)"
        by simp
      with Some line have "asked env w 0 y" by (simp add: asked_def)
      then show ?thesis ..
    next
      case None
      with body line
      have "f env (w\<lparr>stdin_pos := Suc (stdin_pos w), stdout := stdout w @ [AskProceed, PleaseAnswer]\<rparr>) = Some y"
        by simp
      from IH[OF this] obtain k where
        "asked env (w\<lparr>stdin_pos := Suc (stdin_pos w), stdout := stdout w @ [AskProceed, PleaseAnswer]\<rparr>) k y" ..
      from asked_Suc[OF line None this] show ?thesis ..
    qed
  qed
qed


section \<open>Lemmas: what each step leaves unchanged\<close>

lemma choice_frame:
  "files (snd (choice env w xs)) = files w"
  "requests (snd (choice env w xs)) = requests w"
  "stdout (snd (choice env w xs)) = stdout w"
  by (simp_all add: choice_def)

lemma build_prompt_frame:
  "files (snd (build_prompt env w config g)) = files w"
  "requests (snd (build_prompt env w config g)) = requests w"
  "prefix (stdout w) (stdout (snd (build_prompt env w config g)))"
  by (simp_all add: build_prompt_def choice_def split: option.splits sum.splits)

lemma create_tasks_frame:
  "files (snd (create_tasks env config g k w)) = files w
   \<and> requests (snd (create_tasks env config g k w)) = requests w
   \<and> prefix (stdout w) (stdout (snd (create_tasks env config g k w)))"
proof (induction k arbitrary: w)
  case 0
  show ?case by simp
next
  case (Suc k)
  obtain r w1 where b: "build_prompt env w config g = (r, w1)" by (cases "build_prompt env w config g")
  from build_prompt_frame[where env=env and w=w and config=config and g=g] b
  have f1: "files w1 = files w" "requests w1 = requests w" "prefix (stdout w) (stdout w1)" by simp_all
  show ?case
  proof (cases r)
    case (Inl e)
    with b f1 show ?thesis by simp
  next
    case (Inr p)
    obtain r2 w2 where c: "create_tasks env config g k w1 = (r2, w2)" by (cases "create_tasks env config g k w1")
    from Suc.IH[where w=w1] c have "files w2 = files w1" "requests w2 = requests w1" "prefix (stdout w1) (stdout w2)"
      by simp_all
    with f1 have "files w2 = files w" "requests w2 = requests w" "prefix (stdout w) (stdout w2)"
      by (auto intro: prefix_order.trans)
    with b c Inr show ?thesis by (cases r2) simp_all
  qed
qed

lemma create_tasks_length:
  "create_tasks env config g k w = (Inr prompts, w') \<Longrightarrow> length prompts = k"
proof (induction k arbitrary: w prompts w')
  case 0
  then show ?case by simp
next
  case (Suc k)
  then show ?case
    by (auto split: prod.splits sum.splits)
qed

lemma group_launch_frame:
  "files (snd (group_launch env w g config n)) = makedirs (files w) (''generated_images/'' @ g)
   \<and> requests (snd (group_launch env w g config n)) = requests w
   \<and> prefix (stdout w) (stdout (snd (group_launch env w g config n)))"
  using create_tasks_frame[where env=env and config=config and g=g and k="nat n" and
      w="w\<lparr>stdout := stdout w @ [GeneratingFor g], files := makedirs (files w) (''generated_images/'' @ g)\<rparr>"]
  by (auto simp: group_launch_def Let_def dest: append_prefixD)

lemma group_launch_length:
  "group_launch env w g config n = (Inr prompts, w') \<Longrightarrow> length prompts = nat n"
  by (auto simp: group_launch_def Let_def dest: create_tasks_length)


lemma generate_image_frame:
  "files (snd (generate_image env w k p wd h s m)) = files w"
  "stdout (snd (generate_image env w k p wd h s m)) = stdout w"
  by (simp_all add: generate_image_def Let_def split: option.splits post_outcome.splits)


lemma answered_200_le: "answered_200 env k xs \<le> length xs"
  by (induction xs arbitrary: k) (simp_all add: le_SucI)


lemma run_tasks_length:
  "run_tasks env wd h s m prompts w = (rs, w') \<Longrightarrow> length rs = length prompts"
  by (induction prompts arbitrary: w rs w') (auto split: prod.splits)

lemma run_tasks_frame:
  "run_tasks env wd h s m prompts w = (rs, w') \<Longrightarrow> files w' = files w \<and> stdout w' = stdout w"
proof (induction prompts arbitrary: w rs w')
  case Nil
  then show ?case by simp
next
  case (Cons p ps)
  obtain r w1 where g: "generate_image env w (env_api_key env) p wd h s m = (r, w1)"
    by (cases "generate_image env w (env_api_key env) p wd h s m")
  obtain rs1 w2 where t: "run_tasks env wd h s m ps w1 = (rs1, w2)"
    by (cases "run_tasks env wd h s m ps w1")
  from generate_image_frame[where env=env and w=w and k="env_api_key env" and p=p and wd=wd and h=h and s=s and m=m] g
  have "files w1 = files w" "stdout w1 = stdout w" by simp_all
  moreover from Cons.IH[OF t] have "files w2 = files w1" "stdout w2 = stdout w1" by simp_all
  moreover from Cons.prems g t have "w' = w2" by simp
  ultimately show ?case by simp
qed

lemma run_tasks_requests_prefix:
  "prefix (requests w) (requests (snd (run_tasks env wd h s m prompts w)))"
proof (induction prompts arbitrary: w)
  case Nil
  show ?case by simp
next
  case (Cons p ps)
  obtain r w1 where g: "generate_image env w (env_api_key env) p wd h s m = (r, w1)"
    by (cases "generate_image env w (env_api_key env) p wd h s m")
  then have "prefix (requests w) (requests w1)"
    by (auto simp: generate_image_def Let_def split: option.splits post_outcome.splits if_splits)
  with Cons.IH[where w=w1] g show ?case
    by (auto split: prod.splits intro: prefix_order.trans)
qed


lemma first_error_None: "first_error rs = None \<longleftrightarrow> (\<forall>r\<in>set rs. \<not> isl r)"
  by (induction rs rule: first_error.induct) simp_all

lemma rights_map_Inr: "rights (map Inr xs) = xs"
  by (induction xs) simp_all

lemma rights_all: "\<forall>r\<in>set rs. \<not> isl r \<Longrightarrow> map Inr (rights rs) = rs"
  by (induction rs rule: rights.induct) simp_all

lemma set_completion_sequence: "set (completion_sequence order n) = {0..<n}"
  by (auto simp: completion_sequence_def)



lemma gather_Inr:
  assumes "gather order rs = Inr imgs"
  shows "rs = map Inr imgs"
proof -
  from assms have fe: "first_error (map (\<lambda>i. rs ! i) (completion_sequence order (length rs))) = None"
    and imgs: "imgs = rights rs"
    by (auto simp: gather_def split: option.splits)
  have "\<forall>r\<in>set rs. \<not> isl r"
  proof
    fix r assume "r \<in> set rs"
    then obtain i where "i < length rs" "rs ! i = r" by (auto simp: in_set_conv_nth)
    then have "r \<in> set (map (\<lambda>i. rs ! i) (completion_sequence order (length rs)))"
      by (auto simp: set_completion_sequence)
    moreover from fe have "\<forall>r\<in>set (map (\<lambda>i. rs ! i) (completion_sequence order (length rs))). \<not> isl r"
      by (simp only: first_error_None)
    ultimately show "\<not> isl r" by blast
  qed
  with imgs show ?thesis by (simp add: rights_all)
qed

lemma gather_map_Inr: "gather order (map Inr imgs) = Inr imgs"
proof -
  have "\<forall>r\<in>set (map (\<lambda>i. map Inr imgs ! i) (completion_sequence order (length (map Inr imgs)))). \<not> isl r"
    by (auto simp: set_completion_sequence)
  then have "first_error (map (\<lambda>i. map Inr imgs ! i) (completion_sequence order (length (map Inr imgs)))) = None"
    by (simp only: first_error_None)
  then show ?thesis by (simp add: gather_def rights_map_Inr)
qed

lemma save_image_frame:
  "requests (snd (save_image env w img folder filename resize)) = requests w
   \<and> prefix (stdout w) (stdout (snd (save_image env w img folder filename resize)))"
  by (simp add: save_image_def Let_def split: sum.splits)

lemma get_next_image_number_frame:
  "requests (snd (get_next_image_number w folder)) = requests w
   \<and> stdout (snd (get_next_image_number w folder)) = stdout w
   \<and> files (snd (get_next_image_number w folder)) = makedirs (files w) folder"
  by (simp add: get_next_image_number_def Let_def split: sum.splits)

lemma save_images_frame:
  "save_images env g folder resize imgs w = (r, w') \<Longrightarrow>
     requests w' = requests w \<and> prefix (stdout w) (stdout w')"
proof (induction imgs arbitrary: w r w')
  case Nil
  then show ?case by simp
next
  case (Cons img imgs)
  show ?case
  proof (cases "truthy img")
    case False
    with Cons.prems have "save_images env g folder resize imgs w = (r, w')" by simp
    from Cons.IH[OF this] show ?thesis .
  next
    case True
    obtain rn w1 where n: "get_next_image_number w folder = (rn, w1)"
      by (cases "get_next_image_number w folder")
    from get_next_image_number_frame[where w=w and folder=folder] n
    have f1: "requests w1 = requests w" "stdout w1 = stdout w" by simp_all
    show ?thesis
    proof (cases rn)
      case (Inl e)
      with Cons.prems True n f1 show ?thesis by auto
    next
      case (Inr k)
      obtain rs w2 where s: "save_image env w1 img folder (g @ str_nat k @ ''.png'') resize = (rs, w2)"
        by (cases "save_image env w1 img folder (g @ str_nat k @ ''.png'') resize")
      from save_image_frame[where env=env and w=w1 and img=img and folder=folder
          and filename="g @ str_nat k @ ''.png''" and resize=resize] s
      have f2: "requests w2 = requests w1" "prefix (stdout w1) (stdout w2)" by simp_all
      show ?thesis
      proof (cases rs)
        case (Inl e)
        with Cons.prems True n Inr s f1 f2 show ?thesis by (auto simp: Let_def)
      next
        case (Inr u)
        with Cons.prems True n \<open>rn = Inr k\<close> s
        have "save_images env g folder resize imgs w2 = (r, w')" by (simp add: Let_def)
        from Cons.IH[OF this] f1 f2 show ?thesis by (auto intro: prefix_order.trans)
      qed
    qed
  qed
qed

lemma group_collect_frame:
  "group_collect env w g resize results = (r, w') \<Longrightarrow>
     requests w' = requests w \<and> prefix (stdout w) (stdout w')"
  by (auto simp: group_collect_def Let_def split: sum.splits prod.splits dest: save_images_frame)

lemma collect_groups_frame:
  "collect_groups env resize grs w = (r, w') \<Longrightarrow>
     requests w' = requests w \<and> prefix (stdout w) (stdout w')"
proof (induction grs arbitrary: w r w')
  case Nil
  then show ?case by simp
next
  case (Cons gr grs)
  obtain g results where gr: "gr = (g, results)" by (cases gr)
  obtain r1 w1 where c: "group_collect env w g resize results = (r1, w1)"
    by (cases "group_collect env w g resize results")
  from group_collect_frame[OF c] have f1: "requests w1 = requests w" "prefix (stdout w) (stdout w1)"
    by simp_all
  show ?case
  proof (cases r1)
    case (Inl e)
    with Cons.prems gr c f1 show ?thesis by auto
  next
    case (Inr k)
    obtain r2 w2 where c2: "collect_groups env resize grs w1 = (r2, w2)"
      by (cases "collect_groups env resize grs w1")
    from Cons.IH[OF c2] f1 have "requests w2 = requests w" "prefix (stdout w) (stdout w2)"
      by (auto intro: prefix_order.trans)
    moreover from Cons.prems gr c Inr c2 have "w' = w2" by (auto split: sum.splits)
    ultimately show ?thesis by simp
  qed
qed

lemma launch_groups_frame:
  "launch_groups env config n groups w = (r, w') \<Longrightarrow>
     requests w' = requests w \<and> prefix (stdout w) (stdout w')"
proof (induction groups arbitrary: w r w')
  case Nil
  then show ?case by simp
next
  case (Cons g groups)
  obtain r1 w1 where l: "group_launch env w g config n = (r1, w1)"
    by (cases "group_launch env w g config n")
  from group_launch_frame[where env=env and w=w and g=g and config=config and n=n] l
  have f1: "requests w1 = requests w" "prefix (stdout w) (stdout w1)" by simp_all
  show ?case
  proof (cases r1)
    case (Inl e)
    with Cons.prems l f1 show ?thesis by auto
  next
    case (Inr ps)
    obtain r2 w2 where l2: "launch_groups env config n groups w1 = (r2, w2)"
      by (cases "launch_groups env config n groups w1")
    from Cons.IH[OF l2] f1 have "requests w2 = requests w" "prefix (stdout w) (stdout w2)"
      by (auto intro: prefix_order.trans)
    moreover from Cons.prems l Inr l2 have "w' = w2" by (auto split: sum.splits)
    ultimately show ?thesis by simp
  qed
qed


lemma run_groups_frame:
  "run_groups env a launched w = (answered, w') \<Longrightarrow>
     files w' = files w \<and> stdout w' = stdout w \<and> map fst answered = map fst launched
     \<and> map (\<lambda>gr. length (snd gr)) answered = map (\<lambda>gp. length (snd gp)) launched"
proof (induction launched arbitrary: w answered w')
  case Nil
  then show ?case by simp
next
  case (Cons gp launched)
  obtain g ps where gp: "gp = (g, ps)" by (cases gp)
  obtain rs w1 where t: "run_tasks env (arg_width a) (arg_height a) (arg_num_inference_steps a) (arg_model a) ps w = (rs, w1)"
    by (cases "run_tasks env (arg_width a) (arg_height a) (arg_num_inference_steps a) (arg_model a) ps w")
  obtain rest w2 where r: "run_groups env a launched w1 = (rest, w2)"
    by (cases "run_groups env a launched w1")
  from Cons.prems gp t r have eq: "answered = (g, rs) # rest" "w' = w2" by simp_all
  from run_tasks_frame[OF t] run_tasks_length[OF t] Cons.IH[OF r] eq gp show ?case by simp
qed

section \<open>Lemmas: counting through a run\<close>

lemma group_collect_Inr:
  assumes "group_collect env w g resize results = (Inr k, w')"
  shows "results = map Inr (rights results) \<and> k = int (count_images (rights results))
         \<and> save_images env g (''generated_images/'' @ g) resize (rights results) w = (Inr (), w')"
proof -
  from assms obtain imgs where ga: "gather (env_task_order env g) results = Inr imgs"
    by (auto simp: group_collect_def Let_def split: sum.splits)
  from gather_Inr[OF ga] have rs: "results = map Inr imgs" .
  then have imgs: "rights results = imgs" by (simp add: rights_map_Inr)
  from assms ga have "k = int (count_images imgs)"
    and "save_images env g (''generated_images/'' @ g) resize imgs w = (Inr (), w')"
    by (auto simp: group_collect_def Let_def count_images_def split: sum.splits prod.splits)
  with rs imgs show ?thesis by simp
qed










lemma ask_user_confirmation_returns:
  assumes "ask_user_confirmation env w ti tc = Some y"
  shows "\<exists>k. asked env (w\<lparr>stdout := stdout w @ [PotentialCost tc ti]\<rparr>) k y"
  using assms unfolding ask_user_confirmation_def by (rule ask_loop_returns)


lemma main_generate_frame:
  "main_generate env a config w = (out, w') \<Longrightarrow> prefix (stdout w) (stdout w')"
proof -
  assume m: "main_generate env a config w = (out, w')"
  obtain rl w1 where l: "launch_groups env config (arg_n_per_country a) (map fst (cfg_countries config)) w = (rl, w1)"
    by (cases "launch_groups env config (arg_n_per_country a) (map fst (cfg_countries config)) w")
  from launch_groups_frame[OF l] have p1: "prefix (stdout w) (stdout w1)" by simp
  show ?thesis
  proof (cases rl)
    case (Inl e)
    with m l p1 show ?thesis by (simp add: main_generate_def)
  next
    case (Inr launched)
    obtain answered w2 where r: "run_groups env a launched w1 = (answered, w2)"
      by (cases "run_groups env a launched w1")
    from run_groups_frame[OF r] have p2: "stdout w2 = stdout w1" by simp
    let ?picked = "map (\<lambda>i. answered ! i) (completion_sequence (env_group_order env) (length answered))"
    obtain rc w3 where cg: "collect_groups env (arg_resize a) ?picked w2 = (rc, w3)"
      by (cases "collect_groups env (arg_resize a) ?picked w2")
    from collect_groups_frame[OF cg] have p3: "prefix (stdout w2) (stdout w3)" by simp
    from p1 p2 p3 have p: "prefix (stdout w) (stdout w3)" by (auto intro: prefix_order.trans)
    show ?thesis
    proof (cases rc)
      case (Inl e)
      with m l Inr r cg p show ?thesis by (simp add: main_generate_def)
    next
      case (Inr ks)
      with m l \<open>rl = Inr launched\<close> r cg have "\<exists>ys. stdout w' = stdout w3 @ ys"
        by (auto simp: main_generate_def Let_def)
      with p show ?thesis by (auto simp: prefix_def)
    qed
  qed
qed

lemma main_cases:
  assumes "main env a config w = Some (out, w')"
  obtains (raised) e k where
      "asked env (w\<lparr>stdout := stdout w @ [PotentialCost (planned_cost a config)
            (calculate_total_images config (arg_n_per_country a))]\<rparr>) k (Inl e, w')"
      "out = Uncaught e"
  | (declined) k w1 where
      "asked env (w\<lparr>stdout := stdout w @ [PotentialCost (planned_cost a config)
            (calculate_total_images config (arg_n_per_country a))]\<rparr>) k (Inr False, w1)"
      "out = SystemExit 0" "w' = w1\<lparr>stdout := stdout w1 @ [OperationCancelled]\<rparr>"
  | (proceeded) k w1 where
      "asked env (w\<lparr>stdout := stdout w @ [PotentialCost (planned_cost a config)
            (calculate_total_images config (arg_n_per_country a))]\<rparr>) k (Inr True, w1)"
      "main_generate env a config w1 = (out, w')"
proof -
  let ?ti = "calculate_total_images config (arg_n_per_country a)"
  let ?tc = "planned_cost a config"
  from assms obtain r w1 where ask: "ask_user_confirmation env w ?ti ?tc = Some (r, w1)"
    by (cases "ask_user_confirmation env w ?ti ?tc") (auto simp: main_def Let_def planned_cost_def)
  from ask_user_confirmation_returns[OF ask] obtain k where
    k: "asked env (w\<lparr>stdout := stdout w @ [PotentialCost ?tc ?ti]\<rparr>) k (r, w1)" ..
  show thesis
  proof (cases r)
    case (Inl e)
    with assms ask have "out = Uncaught e" "w' = w1"
      by (auto simp: main_def Let_def planned_cost_def)
    with k Inl show thesis by (auto intro: raised)
  next
    case (Inr b)
    show thesis
    proof (cases b)
      case True
      with assms ask Inr have "main_generate env a config w1 = (out, w')"
        by (auto simp: main_def Let_def planned_cost_def)
      with k Inr True show thesis by (auto intro: proceeded)
    next
      case False
      with assms ask Inr have "out = SystemExit 0" "w' = w1\<lparr>stdout := stdout w1 @ [OperationCancelled]\<rparr>"
        by (auto simp: main_def Let_def planned_cost_def)
      with k Inr False show thesis by (auto intro: declined)
    qed
  qed
qed

lemma asked_stdout_prefix:
  assumes "asked env w0 k y"
  shows "prefix (stdout w0 @ [AskProceed]) (stdout (snd y))"
proof -
  from assms have so: "stdout (snd y) = stdout w0 @ concat (replicate k [AskProceed, PleaseAnswer]) @ [AskProceed]"
    by (simp add: asked_def)
  show ?thesis
  proof (cases k)
    case 0
    with so show ?thesis by simp
  next
    case (Suc j)
    with so have "stdout (snd y) = (stdout w0 @ [AskProceed]) @ (PleaseAnswer # concat (replicate j [AskProceed, PleaseAnswer]) @ [AskProceed])"
      by simp
    then show ?thesis by (rule prefixI)
  qed
qed

lemma main_prints_estimate:
  assumes "main env a config w = Some (out, w')"
  shows "prefix (stdout w @ [PotentialCost (planned_cost a config)
            (calculate_total_images config (arg_n_per_country a)), AskProceed]) (stdout w')"
proof -
  let ?w0 = "w\<lparr>stdout := stdout w @ [PotentialCost (planned_cost a config)
            (calculate_total_images config (arg_n_per_country a))]\<rparr>"
  have *: "prefix (stdout w @ [PotentialCost (planned_cost a config)
            (calculate_total_images config (arg_n_per_country a)), AskProceed]) (stdout w1)"
    if "asked env ?w0 k (r, w1)" for k r w1
    using asked_stdout_prefix[OF that] by simp
  from assms show ?thesis
  proof (cases rule: main_cases)
    case (raised e k)
    from *[OF raised(1)] show ?thesis .
  next
    case (declined k w1)
    from *[OF declined(1)] have "prefix (stdout w @ [PotentialCost (planned_cost a config)
            (calculate_total_images config (arg_n_per_country a)), AskProceed]) (stdout w1)" .
    moreover have "prefix (stdout w1) (stdout w')" using declined(3) by simp
    ultimately show ?thesis by (rule prefix_order.trans)
  next
    case (proceeded k w1)
    from *[OF proceeded(1)] main_generate_frame[OF proceeded(2)] show ?thesis
      by (rule prefix_order.trans)
  qed
qed

section \<open>Lemmas: the run as a whole\<close>



lemma run_sample: "main sample_env sample_args sample_config empty_world
  = Some (Completed 1 (1 / 8000), snd (the (main sample_env sample_args sample_config empty_world)))"
  by (simp add: eval_defs ask_loop.simps str_nat.simps)


section \<open>Lemmas: a model outside the enumerated set\<close>











section \<open>Lemmas: names, paths and the file system\<close>

lemma digit_char_inj:
  assumes "a < 10" "b < 10" "digit_char a = digit_char b"
  shows "a = b"
proof -
  have d: "distinct ''0123456789''" by simp
  from assms show ?thesis
    unfolding digit_char_def by (simp add: nth_eq_iff_index_eq[OF d])
qed

lemma digit_char_not_sep: "d < 10 \<Longrightarrow> \<not> is_sep (digit_char d)"
proof -
  assume "d < 10"
  then have "digit_char d \<in> set ''0123456789''"
    unfolding digit_char_def by (intro nth_mem) simp
  then show ?thesis by (auto simp: is_sep_def)
qed

lemma str_nat_nonempty: "str_nat n \<noteq> []"
  by (subst str_nat.simps) simp

lemma str_nat_no_sep: "\<forall>c\<in>set (str_nat n). \<not> is_sep c"
proof (induction n rule: str_nat.induct)
  case (1 n)
  show ?case
  proof (cases "n < 10")
    case True
    then show ?thesis by (subst str_nat.simps) (simp add: digit_char_not_sep)
  next
    case False
    with 1 have "\<forall>c\<in>set (str_nat (n div 10)). \<not> is_sep c" by simp
    with False show ?thesis
      by (subst str_nat.simps) (simp add: digit_char_not_sep)
  qed
qed

lemma str_nat_inj: "str_nat n = str_nat m \<Longrightarrow> n = m"
proof (induction n arbitrary: m rule: str_nat.induct)
  case (1 n)
  show ?case
  proof (cases "n < 10")
    case True
    note n = True
    show ?thesis
    proof (cases "m < 10")
      case True
      with n "1.prems" have "digit_char n = digit_char m"
        by (simp add: str_nat.simps[of n] str_nat.simps[of m])
      with n True show ?thesis by (rule digit_char_inj)
    next
      case False
      with n "1.prems" have "[digit_char n] = str_nat (m div 10) @ [digit_char (m mod 10)]"
        by (simp add: str_nat.simps[of n] str_nat.simps[of m])
      then show ?thesis using str_nat_nonempty[of "m div 10"] by simp
    qed
  next
    case False
    note n = False
    show ?thesis
    proof (cases "m < 10")
      case True
      with n "1.prems" have "str_nat (n div 10) @ [digit_char (n mod 10)] = [digit_char m]"
        by (simp add: str_nat.simps[of n] str_nat.simps[of m])
      then show ?thesis using str_nat_nonempty[of "n div 10"] by simp
    next
      case False
      with n "1.prems" have e: "str_nat (n div 10) = str_nat (m div 10)"
        "digit_char (n mod 10) = digit_char (m mod 10)"
        by (simp_all add: str_nat.simps[of n] str_nat.simps[of m])
      from "1.IH"[OF n e(1)] have "n div 10 = m div 10" .
      moreover from e(2) have "n mod 10 = m mod 10" by (intro digit_char_inj) simp_all
      ultimately show ?thesis by (metis div_mult_mod_eq)
    qed
  qed
qed

lemma endswith_png: "endswith (x @ ''.png'') ''.png''"
  by (simp add: endswith_def)

lemma rstrip_sep_append_sep:
  assumes "folder \<noteq> []" "\<not> list_all is_sep folder"
  shows "rstrip_sep (folder @ ''/'') = rstrip_sep folder"
  using assms by (simp add: rstrip_sep_def is_sep_def)

lemma path_split_join:
  assumes "filename \<noteq> []" "\<forall>c\<in>set filename. \<not> is_sep c"
    and "folder \<noteq> []" "\<not> list_all is_sep folder"
  shows "path_split (path_join folder filename) = (rstrip_sep folder, filename)"
proof -
  from assms(1,2) have hd: "hd filename \<noteq> CHR ''/''" by (cases filename) (auto simp: is_sep_def)
  have tw: "takeWhile (\<lambda>c. \<not> is_sep c) (rev filename @ CHR ''/'' # xs) = rev filename" for xs
    using assms(2) by (subst takeWhile_append2) (auto simp: is_sep_def)
  have dw: "dropWhile (\<lambda>c. \<not> is_sep c) (rev filename @ CHR ''/'' # xs) = CHR ''/'' # xs" for xs
    using assms(2) by (subst dropWhile_append2) (auto simp: is_sep_def)
  show ?thesis
  proof (cases "last folder = CHR ''/''")
    case True
    with assms(3) obtain ys where f: "folder = ys @ ''/''"
      by (metis append_butlast_last_id)
    have "path_join folder filename = folder @ filename" using True hd assms(1) by (simp add: path_join_def)
    then have "rev (path_join folder filename) = rev filename @ CHR ''/'' # rev ys" using f by simp
    then show ?thesis using f by (simp add: path_split_def tw dw)
  next
    case False
    have "path_join folder filename = folder @ ''/'' @ filename"
      using False hd assms(1,3) by (simp add: path_join_def)
    then have "rev (path_join folder filename) = rev filename @ CHR ''/'' # rev folder" by simp
    then show ?thesis
      using rstrip_sep_append_sep[OF assms(3,4)] by (simp add: path_split_def tw dw)
  qed
qed

lemma folder_ok:
  "''generated_images/'' @ g \<noteq> []" "\<not> list_all is_sep (''generated_images/'' @ g)"
  by (simp_all add: is_sep_def)

lemma file_name_ok:
  assumes "CHR ''/'' \<notin> set g"
  shows "g @ str_nat n @ ''.png'' \<noteq> []" "\<forall>c\<in>set (g @ str_nat n @ ''.png''). \<not> is_sep c"
  using assms str_nat_no_sep[of n] by (auto simp: is_sep_def)

lemma file_name_inj: "g @ str_nat n @ ''.png'' = g @ str_nat m @ ''.png'' \<Longrightarrow> n = m"
  by (simp add: str_nat_inj)

lemma makedirs_existing: "map_of f (rstrip_sep p) = Some d \<Longrightarrow> makedirs f p = f"
  by (simp add: makedirs_def)

lemma map_of_makedirs: "map_of (makedirs f p) (rstrip_sep p) = Some (entries f p)"
  by (auto simp: makedirs_def entries_def map_add_def split: option.splits)

lemma makedirs_idem: "makedirs (makedirs f p) p = makedirs f p"
  using map_of_makedirs[of f p] by (rule makedirs_existing)

lemma entries_makedirs: "entries (makedirs f p) p = entries f p"
  by (simp add: entries_def map_of_makedirs)

lemma listdir_makedirs: "listdir (makedirs f p) p = Inr (map fst (entries f p))"
  by (simp add: listdir_def map_of_makedirs)

lemma get_next_image_number_eq:
  "get_next_image_number w folder
     = (Inr (length (filter (\<lambda>f. endswith f ''.png'') (map fst (entries (files w) folder))) + 1),
        w\<lparr>files := makedirs (files w) folder\<rparr>)"
  by (simp add: get_next_image_number_def Let_def listdir_makedirs)

lemma save_image_success:
  assumes "truthy img" "filename \<noteq> []" "\<forall>c\<in>set filename. \<not> is_sep c"
    and "folder \<noteq> []" "\<not> list_all is_sep folder"
    and "save_image env w img folder filename resize = (Inr u, w')"
  shows "\<exists>data. files w' = AList.update (rstrip_sep folder)
            (AList.update filename data (entries (files w) folder)) (makedirs (files w) folder)"
proof -
  note ps = path_split_join[OF assms(2,3,4,5)]
  from assms(1,6) show ?thesis
    by (auto simp: save_image_def Let_def write_file_def ps map_of_makedirs assms(2)
        split: sum.splits if_splits)
qed

lemma save_image_failure_files:
  assumes "save_image env w img folder filename resize = (Inl e, w')"
  shows "files w' = makedirs (files w) folder"
  using assms by (auto simp: save_image_def Let_def split: sum.splits if_splits)

lemma entries_update:
  "entries (AList.update (rstrip_sep folder) d f) folder = d"
  by (simp add: entries_def update_conv')

lemma entries_update_other:
  "rstrip_sep other \<noteq> rstrip_sep folder \<Longrightarrow>
   entries (AList.update (rstrip_sep folder) d f) other = entries f other"
  by (simp add: entries_def update_conv')

lemma read_file_entries: "read_file f folder name = map_of (entries f folder) name"
  by (simp add: read_file_def entries_def split: option.splits)

lemma listdir_entries:
  "listdir f folder = Inr names \<Longrightarrow> map fst (entries f folder) = names"
  by (auto simp: listdir_def entries_def split: option.splits)

text \<open>One round of the loop of lines 138-142 on a payload that is saved.\<close>

lemma save_images_step:
  assumes g: "CHR ''/'' \<notin> set g" and t: "truthy img"
    and s: "save_images env g (''generated_images/'' @ g) resize (img # imgs) w = (Inr (), w')"
  shows "\<exists>data w2. files w2 = AList.update (rstrip_sep (''generated_images/'' @ g))
            (AList.update
               (g @ str_nat (length (filter (\<lambda>f. endswith f ''.png'')
                     (map fst (entries (files w) (''generated_images/'' @ g)))) + 1) @ ''.png'')
               data (entries (files w) (''generated_images/'' @ g)))
            (makedirs (files w) (''generated_images/'' @ g))
          \<and> save_images env g (''generated_images/'' @ g) resize imgs w2 = (Inr (), w')"
proof -
  let ?folder = "''generated_images/'' @ g"
  let ?n = "length (filter (\<lambda>f. endswith f ''.png'') (map fst (entries (files w) ?folder))) + 1"
  let ?w1 = "w\<lparr>files := makedirs (files w) ?folder\<rparr>"
  obtain r w2 where si: "save_image env ?w1 img ?folder (g @ str_nat ?n @ ''.png'') resize = (r, w2)"
    by (cases "save_image env ?w1 img ?folder (g @ str_nat ?n @ ''.png'') resize")
  from s t si have r: "r = Inr ()" and rest: "save_images env g ?folder resize imgs w2 = (Inr (), w')"
    by (auto simp: get_next_image_number_eq Let_def split: sum.splits simp del: str_nat.simps)
  from save_image_success[OF t file_name_ok[OF g] folder_ok si[unfolded r]]
  obtain data where "files w2 = AList.update (rstrip_sep ?folder)
            (AList.update (g @ str_nat ?n @ ''.png'') data (entries (files ?w1) ?folder))
            (makedirs (files ?w1) ?folder)" by blast
  then have "files w2 = AList.update (rstrip_sep ?folder)
            (AList.update (g @ str_nat ?n @ ''.png'') data (entries (files w) ?folder))
            (makedirs (files w) ?folder)"
    by (simp add: entries_makedirs makedirs_idem)
  with rest show ?thesis by blast
qed

lemma filter_png_names:
  "filter (\<lambda>f. endswith f ''.png'') (map (\<lambda>i. g @ str_nat i @ ''.png'') xs)
     = map (\<lambda>i. g @ str_nat i @ ''.png'') xs"
proof -
  have "endswith (g @ str_nat i @ ''.png'') ''.png''" for i
    using endswith_png[of "g @ str_nat i"] by simp
  then show ?thesis by (induction xs) simp_all
qed

lemma distinct_names: "distinct (map (\<lambda>i. g @ str_nat i @ ''.png'') [a..<b])"
  by (simp add: distinct_map inj_on_def str_nat_inj)

lemma save_images_names:
  assumes g: "CHR ''/'' \<notin> set g"
  shows "map fst (entries (files w) (''generated_images/'' @ g))
           = map (\<lambda>i. g @ str_nat i @ ''.png'') [1..<Suc j] \<Longrightarrow>
         save_images env g (''generated_images/'' @ g) resize imgs w = (Inr (), w') \<Longrightarrow>
         map fst (entries (files w') (''generated_images/'' @ g))
           = map (\<lambda>i. g @ str_nat i @ ''.png'') [1..<Suc (j + length (filter truthy imgs))]"
proof (induction imgs arbitrary: w j)
  case Nil
  then show ?case by simp
next
  case (Cons img imgs)
  let ?folder = "''generated_images/'' @ g"
  let ?name = "\<lambda>i. g @ str_nat i @ ''.png''"
  show ?case
  proof (cases "truthy img")
    case False
    with Cons.prems(2) have "save_images env g ?folder resize imgs w = (Inr (), w')" by simp
    from Cons.IH[OF Cons.prems(1) this] False show ?thesis by simp
  next
    case True
    have n: "length (filter (\<lambda>f. endswith f ''.png'') (map fst (entries (files w) ?folder))) + 1 = Suc j"
      unfolding Cons.prems(1) filter_png_names by simp
    from save_images_step[OF g True Cons.prems(2)] obtain data w2 where
      f2: "files w2 = AList.update (rstrip_sep ?folder)
            (AList.update (?name (Suc j)) data (entries (files w) ?folder))
            (makedirs (files w) ?folder)"
      and rest: "save_images env g ?folder resize imgs w2 = (Inr (), w')"
      unfolding n by blast
    have notin: "?name (Suc j) \<notin> set (map fst (entries (files w) ?folder))"
      unfolding Cons.prems(1) by (auto dest!: str_nat_inj)
    have "map fst (entries (files w2) ?folder) = map fst (entries (files w) ?folder) @ [?name (Suc j)]"
      unfolding f2 entries_update using notin by (simp only: update_keys if_False)
    then have "map fst (entries (files w2) ?folder) = map ?name [1..<Suc (Suc j)]"
      unfolding Cons.prems(1) by simp
    from Cons.IH[OF this rest] True show ?thesis by simp
  qed
qed

lemma save_image_task_order:
  "save_image (env\<lparr>env_task_order := order\<rparr>) w img folder filename resize
     = save_image env w img folder filename resize"
  by (simp add: save_image_def Let_def split: sum.splits)

lemma save_images_task_order:
  "save_images (env\<lparr>env_task_order := order\<rparr>) g folder resize imgs w
     = save_images env g folder resize imgs w"
  by (induction imgs arbitrary: w)
     (auto simp: save_image_task_order Let_def split: prod.splits sum.splits)

lemma group_collect_any_order:
  assumes "group_collect env w g resize results = (Inr k, w')"
  shows "group_collect (env\<lparr>env_task_order := order\<rparr>) w g resize results = (Inr k, w')"
proof -
  from group_collect_Inr[OF assms] have r: "results = map Inr (rights results)"
    and k: "k = int (count_images (rights results))"
    and s: "save_images env g (''generated_images/'' @ g) resize (rights results) w = (Inr (), w')"
    by simp_all
  have "group_collect (env\<lparr>env_task_order := order\<rparr>) w g resize (map Inr (rights results)) = (Inr k, w')"
    unfolding group_collect_def gather_map_Inr using s k
    by (simp add: Let_def save_images_task_order count_images_def)
  with r show ?thesis by simp
qed

lemma makedirs_keeps: "map_of f k = Some d \<Longrightarrow> map_of (makedirs f p) k = Some d"
  by (auto simp: makedirs_def map_add_def split: option.splits)

lemma save_image_keeps:
  assumes "map_of (files w) k \<noteq> None"
  shows "map_of (files (snd (save_image env w img folder filename resize))) k \<noteq> None"
proof -
  from assms obtain d where "map_of (files w) k = Some d" by auto
  then have m: "map_of (makedirs (files w) folder) k = Some d" by (rule makedirs_keeps)
  show ?thesis
    using assms m
    by (auto simp: save_image_def Let_def write_file_def update_conv'
        split: sum.splits prod.splits option.splits if_splits)
qed

lemma save_images_keeps:
  "save_images env g folder resize imgs w = (r, w') \<Longrightarrow> map_of (files w) k \<noteq> None \<Longrightarrow>
     map_of (files w') k \<noteq> None"
proof (induction imgs arbitrary: w r w')
  case Nil
  then show ?case by simp
next
  case (Cons img imgs)
  show ?case
  proof (cases "truthy img")
    case False
    with Cons.prems have "save_images env g folder resize imgs w = (r, w')" by simp
    from Cons.IH[OF this Cons.prems(2)] show ?thesis .
  next
    case True
    let ?n = "length (filter (\<lambda>f. endswith f ''.png'') (map fst (entries (files w) folder))) + 1"
    let ?w1 = "w\<lparr>files := makedirs (files w) folder\<rparr>"
    from Cons.prems(2) obtain d where "map_of (files w) k = Some d" by auto
    then have k1: "map_of (files ?w1) k \<noteq> None" by (simp add: makedirs_keeps)
    obtain rs w2 where s: "save_image env ?w1 img folder (g @ str_nat ?n @ ''.png'') resize = (rs, w2)"
      by (cases "save_image env ?w1 img folder (g @ str_nat ?n @ ''.png'') resize")
    from save_image_keeps[OF k1, of env img folder "g @ str_nat ?n @ ''.png''" resize] s
    have k2: "map_of (files w2) k \<noteq> None" by simp
    show ?thesis
    proof (cases rs)
      case (Inl e)
      with Cons.prems(1) True s k2 show ?thesis
        by (auto simp: get_next_image_number_eq Let_def)
    next
      case (Inr u)
      with Cons.prems(1) True s have "save_images env g folder resize imgs w2 = (r, w')"
        by (simp add: get_next_image_number_eq Let_def)
      from Cons.IH[OF this k2] show ?thesis .
    qed
  qed
qed

lemma listdir_existing:
  "map_of f (rstrip_sep folder) \<noteq> None \<Longrightarrow> listdir f folder = Inr (map fst (entries f folder))"
  by (auto simp: listdir_def entries_def)


lemma str_nat_digit: "n < 10 \<Longrightarrow> str_nat n = [digit_char n]"
  by (subst str_nat.simps) simp

lemma group_a_run:
  "save_images sample_env ''groupA'' (''generated_images/'' @ ''groupA'') False [Some ''AB'']
      group_a_world
   = (Inr (), group_a_world\<lparr>files := [(''generated_images/groupA'',
        [(''groupA1.png'', ''one''), (''groupA2.png'', ''two''), (''groupA3.png'', ''AB'')])],
        stdout := [ImageSaved ''generated_images/groupA/groupA3.png'']\<rparr>)"
  by (simp add: eval_defs group_a_world_def str_nat_digit)

lemma save_images_append:
  "save_images env g folder resize (xs @ ys) w
     = (case save_images env g folder resize xs w of
          (Inl e, w1) \<Rightarrow> (Inl e, w1)
        | (Inr u, w1) \<Rightarrow> save_images env g folder resize ys w1)"
  by (induction xs arbitrary: w) (auto simp: Let_def split: prod.splits sum.splits)

lemma shuffled_batch:
  "group_collect shuffled_env nordic_world ''nordic'' False
       [Inr (Some ''AB''), Inr None, Inr (Some ''CD'')]
     = (Inr 2, nordic_world\<lparr>files := [(''generated_images/nordic'',
            [(''nordic1.png'', ''AB''), (''nordic2.png'', ''CD'')])],
          stdout := [ImageSaved ''generated_images/nordic/nordic1.png'',
                     ImageSaved ''generated_images/nordic/nordic2.png'']\<rparr>)"
  by (simp add: eval_defs shuffled_env_def nordic_world_def str_nat_digit)

section \<open>Lemmas: the batch as a whole\<close>

lemma group_collect_file_names:
  assumes "CHR ''/'' \<notin> set country_group"
    and "listdir (files w) (''generated_images/'' @ country_group) = Inr []"
    and "group_collect env w country_group resize results = (Inr k, w')"
  shows "listdir (files w') (''generated_images/'' @ country_group)
           = Inr (map (\<lambda>i. country_group @ str_nat i @ ''.png'')
                   [1..<Suc (length (filter truthy (rights results)))])
       \<and> distinct (map (\<lambda>i. country_group @ str_nat i @ ''.png'')
                   [1..<Suc (length (filter truthy (rights results)))])
       \<and> k = int (count_images (rights results))
       \<and> (\<forall>order. group_collect (env\<lparr>env_task_order := order\<rparr>) w country_group resize results
             = (Inr k, w'))"
proof -
  let ?folder = "''generated_images/'' @ country_group"
  from group_collect_Inr[OF assms(3)] have k: "k = int (count_images (rights results))"
    and s: "save_images env country_group ?folder resize (rights results) w = (Inr (), w')"
    by simp_all
  from listdir_entries[OF assms(2)]
  have e0: "map fst (entries (files w) ?folder) = map (\<lambda>i. country_group @ str_nat i @ ''.png'') [1..<Suc 0]"
    by simp
  from assms(2) have d: "map_of (files w) (rstrip_sep ?folder) \<noteq> None"
    by (auto simp: listdir_def split: option.splits)
  from save_images_names[OF assms(1) e0 s]
  have names: "map fst (entries (files w') ?folder)
      = map (\<lambda>i. country_group @ str_nat i @ ''.png'') [1..<Suc (length (filter truthy (rights results)))]"
    by simp
  from save_images_keeps[OF s d] have "map_of (files w') (rstrip_sep ?folder) \<noteq> None" .
  from listdir_existing[OF this] names
  have 1: "listdir (files w') ?folder
           = Inr (map (\<lambda>i. country_group @ str_nat i @ ''.png'')
                   [1..<Suc (length (filter truthy (rights results)))])" by simp
  have 4: "group_collect (env\<lparr>env_task_order := order\<rparr>) w country_group resize results
             = (Inr k, w')" for order
    by (rule group_collect_any_order[OF assms(3)])
  from 1 distinct_names k 4 show ?thesis by blast
qed






lemma generate_images_for_country_group_Inr:
  assumes "generate_images_for_country_group env w g config n wd h s m resize = (Inr k, w')"
  obtains prompts w1 results w2 where
    "group_launch env w g config n = (Inr prompts, w1)"
    "run_tasks env wd h s m prompts w1 = (results, w2)"
    "group_collect env w2 g resize results = (Inr k, w')"
proof -
  obtain r w1 where l: "group_launch env w g config n = (r, w1)"
    by (cases "group_launch env w g config n")
  with assms obtain prompts where r: "r = Inr prompts"
    by (cases r) (auto simp: generate_images_for_country_group_def)
  obtain results w2 where t: "run_tasks env wd h s m prompts w1 = (results, w2)"
    by (cases "run_tasks env wd h s m prompts w1")
  from assms l r t have "group_collect env w2 g resize results = (Inr k, w')"
    by (simp add: generate_images_for_country_group_def)
  with l r t show thesis by (auto intro: that)
qed

lemma listdir_after_launch:
  assumes "listdir (files w) (''generated_images/'' @ g) = Inr [] \<or>
           listdir (files w) (''generated_images/'' @ g) = Inl OSError"
    and "group_launch env w g config n = (r, w1)"
    and "run_tasks env wd h s m prompts w1 = (results, w2)"
  shows "listdir (files w2) (''generated_images/'' @ g) = Inr []"
proof -
  from group_launch_frame[where env=env and w=w and g=g and config=config and n=n] assms(2)
  have "files w1 = makedirs (files w) (''generated_images/'' @ g)" by simp
  with run_tasks_frame[OF assms(3)]
  have f: "files w2 = makedirs (files w) (''generated_images/'' @ g)" by simp
  from assms(1) have "entries (files w) (''generated_images/'' @ g) = []"
    by (auto simp: listdir_def entries_def split: option.splits)
  then show ?thesis unfolding f by (simp add: listdir_makedirs)
qed

lemma choice_task_order:
  "choice (env\<lparr>env_task_order := order\<rparr>) w xs = choice env w xs"
  by (simp add: choice_def)

lemma build_prompt_task_order:
  "build_prompt (env\<lparr>env_task_order := order\<rparr>) w config g = build_prompt env w config g"
  by (auto simp: build_prompt_def choice_task_order split: option.splits prod.splits sum.splits)

lemma create_tasks_task_order:
  "create_tasks (env\<lparr>env_task_order := order\<rparr>) config g k w = create_tasks env config g k w"
  by (induction k arbitrary: w)
     (auto simp: build_prompt_task_order split: prod.splits sum.splits)

lemma group_launch_task_order:
  "group_launch (env\<lparr>env_task_order := order\<rparr>) w g config n = group_launch env w g config n"
  by (simp add: group_launch_def create_tasks_task_order)

lemma generate_image_task_order:
  "generate_image (env\<lparr>env_task_order := order\<rparr>) w key p wd h s m
     = generate_image env w key p wd h s m"
  by (auto simp: generate_image_def decode_response_def Let_def
      split: option.splits post_outcome.splits sum.splits)

lemma run_tasks_task_order:
  "run_tasks (env\<lparr>env_task_order := order\<rparr>) wd h s m prompts w = run_tasks env wd h s m prompts w"
  by (induction prompts arbitrary: w)
     (auto simp: generate_image_task_order split: prod.splits)

lemma generate_images_for_country_group_file_names:
  assumes "CHR ''/'' \<notin> set g"
    and "listdir (files w) (''generated_images/'' @ g) = Inr [] \<or>
         listdir (files w) (''generated_images/'' @ g) = Inl OSError"
    and "generate_images_for_country_group env w g config n wd h s m resize = (Inr k, w')"
  shows "\<exists>image_bytes_list. length image_bytes_list = nat n
           \<and> k = int (count_images image_bytes_list)
           \<and> listdir (files w') (''generated_images/'' @ g)
               = Inr (map (\<lambda>i. g @ str_nat i @ ''.png'')
                       [1..<Suc (length (filter truthy image_bytes_list))])"
    and "generate_images_for_country_group (env\<lparr>env_task_order := order\<rparr>) w g config n
           wd h s m resize = (Inr k, w')"
proof -
  from assms(3) obtain prompts w1 results w2 where
    l: "group_launch env w g config n = (Inr prompts, w1)"
    and t: "run_tasks env wd h s m prompts w1 = (results, w2)"
    and c: "group_collect env w2 g resize results = (Inr k, w')"
    by (rule generate_images_for_country_group_Inr)
  from listdir_after_launch[OF assms(2) l t]
  have e: "listdir (files w2) (''generated_images/'' @ g) = Inr []" .
  note b = group_collect_file_names[OF assms(1) e c]
  from group_collect_Inr[OF c] have r: "results = map Inr (rights results)" by simp
  from run_tasks_length[OF t] group_launch_length[OF l] have "length results = nat n" by simp
  with r have "length (rights results) = nat n" by (metis length_map)
  with b show "\<exists>image_bytes_list. length image_bytes_list = nat n
           \<and> k = int (count_images image_bytes_list)
           \<and> listdir (files w') (''generated_images/'' @ g)
               = Inr (map (\<lambda>i. g @ str_nat i @ ''.png'')
                       [1..<Suc (length (filter truthy image_bytes_list))])"
    by blast
  from b have "group_collect (env\<lparr>env_task_order := order\<rparr>) w2 g resize results = (Inr k, w')"
    by blast
  with l t show "generate_images_for_country_group (env\<lparr>env_task_order := order\<rparr>) w g config n
           wd h s m resize = (Inr k, w')"
    by (simp add: generate_images_for_country_group_def group_launch_task_order
        run_tasks_task_order)
qed


section \<open>The Generation Client\<close>

text \<open>
  C2 (amended). With a valid model, \<open>generate_image\<close> issues exactly one request. A response
  whose status is not 200 yields \<open>None\<close> as an ordinary return value. A transport failure
  is not caught: the exception of \<^verbatim>\<open>session.post\<close> propagates to the caller.
\<close>

theorem generate_image_failed_request:
  assumes "model = ''schnell'' \<or> model = ''dev''"
  shows "\<exists>req. requests (snd (generate_image env w api_key prompt width height steps model))
                 = requests w @ [req]
           \<and> (case env_post env (length (requests w)) req of
                 TransportFailure \<Rightarrow>
                   fst (generate_image env w api_key prompt width height steps model)
                     = Inl ClientError
               | Response status body \<Rightarrow>
                   status \<noteq> 200 \<longrightarrow>
                   fst (generate_image env w api_key prompt width height steps model)
                     = Inr None)"
  using assms
  by (auto simp: generate_image_def model_url_def Let_def split: post_outcome.splits)

theorem generate_image_failed_request_witness:
  "fst (generate_image (sample_env\<lparr>env_post := (\<lambda>k r. Response 503 None)\<rparr>) empty_world
          (Some ''k'') ''a prompt'' 512 512 1 ''dev'') = Inr None
   \<and> length (requests (snd (generate_image (sample_env\<lparr>env_post := (\<lambda>k r. Response 503 None)\<rparr>)
          empty_world (Some ''k'') ''a prompt'' 512 512 1 ''dev''))) = 1"
  using generate_image_failed_request
    [of "''dev''" "sample_env\<lparr>env_post := (\<lambda>k r. Response 503 None)\<rparr>" empty_world
        "Some ''k''" "''a prompt''" 512 512 1]
  by (auto simp: sample_env_def empty_world_def)

text \<open>
  The claim as stated fails: with the valid model \<open>schnell\<close> and a transport failure the
  client raises \<^verbatim>\<open>ClientError\<close> instead of returning \<open>None\<close>.
\<close>

theorem generate_image_transport_failure_raises:
  "fst (generate_image (sample_env\<lparr>env_post := (\<lambda>k r. TransportFailure)\<rparr>) empty_world
          (Some ''k'') ''a prompt'' 512 512 1 ''schnell'') = Inl ClientError"
  by (simp add: generate_image_def model_url_def sample_env_def empty_world_def Let_def)

section \<open>Persistence\<close>

text \<open>
  C10. For every folder, file name and resize flag, \<open>save_image\<close> with an empty payload does
  exactly what it does with \<open>None\<close>: it prints the failure line and leaves the file system
  as it was.
\<close>

theorem save_image_empty_payload:
  "save_image env w (Some []) folder filename resize
     = save_image env w None folder filename resize
   \<and> files (snd (save_image env w (Some []) folder filename resize)) = files w
   \<and> fst (save_image env w (Some []) folder filename resize) = Inr ()"
  by (simp add: save_image_def truthy_def)

section \<open>The Cost Estimator\<close>



text \<open>
  C9. The planned image count is the number of groups times \<open>n_per_country\<close>, for every
  configuration (also one without groups), and it is what \<open>main\<close> shows before it asks
  for the confirmation.
\<close>

theorem planned_image_count:
  "calculate_total_images config n_per_country
     = int (length (cfg_countries config)) * n_per_country
   \<and> (\<forall>out w'. main env a config w = Some (out, w') \<longrightarrow>
        (\<exists>cost rest. stdout w' = stdout w
           @ PotentialCost cost (int (length (cfg_countries config)) * arg_n_per_country a)
           # AskProceed # rest))"
proof -
  have "\<exists>cost rest. stdout w' = stdout w
           @ PotentialCost cost (int (length (cfg_countries config)) * arg_n_per_country a)
           # AskProceed # rest"
    if "main env a config w = Some (out, w')" for out w'
    using main_prints_estimate[OF that]
    by (auto simp: prefix_def calculate_total_images_def)
  then show ?thesis by (simp add: calculate_total_images_def)
qed

theorem planned_image_count_witness:
  "calculate_total_images sample_config 3 = 3
   \<and> take 2 (stdout (snd (the (main sample_env sample_args sample_config empty_world))))
       = [PotentialCost (1 / 8000) 1, AskProceed]"
proof -
  note h = planned_image_count[of sample_config 3 sample_env sample_args empty_world]
  from h have c: "calculate_total_images sample_config 3 = 3" by (simp add: sample_config_def)
  from h run_sample obtain cost rest where
    "stdout (snd (the (main sample_env sample_args sample_config empty_world)))
       = stdout empty_world @ PotentialCost cost
            (int (length (cfg_countries sample_config)) * arg_n_per_country sample_args)
           # AskProceed # rest"
    by (metis option.sel snd_conv)
  moreover have "hd (stdout (snd (the (main sample_env sample_args sample_config empty_world))))
       = PotentialCost (1 / 8000) 1"
    by (simp add: eval_defs ask_loop.simps str_nat.simps)
  ultimately have "take 2 (stdout (snd (the (main sample_env sample_args sample_config empty_world))))
       = [PotentialCost (1 / 8000) 1, AskProceed]"
    by (simp add: empty_world_def)
  with c show ?thesis by blast
qed




section \<open>The confirmation gate\<close>




section \<open>A model outside the enumerated set\<close>




section \<open>The Output Namer and the batch\<close>

text \<open>
  C5. Let the name of the group hold no path separator, and let its directory exist and be
  empty. When the batch returns, having gathered the results of its requests and saved
  the \<open>K\<close> payloads that are not empty, the directory lists exactly
  \<open>{group}1.png\<close>, ..., \<open>{group}K.png\<close>, each once; the batch returns the number of results
  that are not \<open>None\<close>; and every order of completion of the requests gives the same
  result and the same files. (The lemma \<open>generate_images_for_country_group_file_names\<close>
  carries this to the whole function, from a directory that is empty or does not exist.)
\<close>

theorem batch_file_names:
  assumes "CHR ''/'' \<notin> set country_group"
    and "listdir (files w) (''generated_images/'' @ country_group) = Inr []"
    and "group_collect env w country_group resize results = (Inr k, w')"
  shows "listdir (files w') (''generated_images/'' @ country_group)
           = Inr (map (\<lambda>i. country_group @ str_nat i @ ''.png'')
                   [1..<Suc (length (filter truthy (rights results)))])
       \<and> distinct (map (\<lambda>i. country_group @ str_nat i @ ''.png'')
                   [1..<Suc (length (filter truthy (rights results)))])
       \<and> k = int (count_images (rights results))
       \<and> (\<forall>order. group_collect (env\<lparr>env_task_order := order\<rparr>) w country_group resize results
             = (Inr k, w'))"
  using assms by (rule group_collect_file_names)

theorem batch_file_names_witness:
  "listdir (files (snd (group_collect shuffled_env nordic_world ''nordic'' False
       [Inr (Some ''AB''), Inr None, Inr (Some ''CD'')]))) (''generated_images/'' @ ''nordic'')
     = Inr [''nordic1.png'', ''nordic2.png'']"
proof -
  have g: "CHR ''/'' \<notin> set ''nordic''" by simp
  have e: "listdir (files nordic_world) (''generated_images/'' @ ''nordic'') = Inr []"
    by (simp add: eval_defs nordic_world_def)
  from batch_file_names[OF g e shuffled_batch] show ?thesis
    by (simp add: shuffled_batch truthy_def str_nat_digit digit_char_def)
qed

text \<open>
  C6 (amended). For every directory the next index is the number of its entries whose
  name ends with \<open>.png\<close>, whatever the rest of the name, plus one. The image saved next
  for a group whose name holds no path separator is named \<open>{group}{index}.png\<close>; saving it
  creates or replaces that one file and leaves every other file of the directory as it
  was. So with \<open>groupA1.png\<close> and \<open>groupA2.png\<close> as the only \<open>.png\<close> entries the new file is
  \<open>groupA3.png\<close> and neither of the two is overwritten.
\<close>

theorem next_image_name:
  assumes "CHR ''/'' \<notin> set country_group"
    and "payload \<noteq> []"
    and "save_images env country_group (''generated_images/'' @ country_group) resize
           [Some payload] w = (Inr (), w')"
  shows "(\<exists>names. listdir (makedirs (files w) folder) folder = Inr names
            \<and> fst (get_next_image_number w folder)
                = Inr (length (filter (\<lambda>f. endswith f ''.png'') names) + 1))
       \<and> (\<exists>names. listdir (makedirs (files w) (''generated_images/'' @ country_group))
                     (''generated_images/'' @ country_group) = Inr names
            \<and> read_file (files w') (''generated_images/'' @ country_group)
                 (country_group
                    @ str_nat (length (filter (\<lambda>f. endswith f ''.png'') names) + 1) @ ''.png'')
                 \<noteq> None
            \<and> (\<forall>name. name \<noteq> country_group
                    @ str_nat (length (filter (\<lambda>f. endswith f ''.png'') names) + 1) @ ''.png''
                 \<longrightarrow> read_file (files w') (''generated_images/'' @ country_group) name
                     = read_file (files w) (''generated_images/'' @ country_group) name))"
proof -
  let ?folder = "''generated_images/'' @ country_group"
  let ?names = "map fst (entries (files w) ?folder)"
  let ?fn = "country_group @ str_nat (length (filter (\<lambda>f. endswith f ''.png'') ?names) + 1) @ ''.png''"
  have 1: "\<exists>names. listdir (makedirs (files w) folder) folder = Inr names
            \<and> fst (get_next_image_number w folder)
                = Inr (length (filter (\<lambda>f. endswith f ''.png'') names) + 1)"
    by (simp add: listdir_makedirs get_next_image_number_eq)
  have t: "truthy (Some payload)" using assms(2) by (simp add: truthy_def)
  from save_images_step[OF assms(1) t assms(3)] obtain data where
    f: "files w' = AList.update (rstrip_sep ?folder)
            (AList.update ?fn data (entries (files w) ?folder)) (makedirs (files w) ?folder)"
    by auto
  have e: "entries (files w') ?folder = AList.update ?fn data (entries (files w) ?folder)"
    unfolding f by (rule entries_update)
  have a: "read_file (files w') ?folder ?fn \<noteq> None"
    unfolding read_file_entries e by (simp add: update_conv')
  have b: "read_file (files w') ?folder name = read_file (files w) ?folder name"
    if "name \<noteq> ?fn" for name
    unfolding read_file_entries e using that by (simp add: update_conv')
  have "listdir (makedirs (files w) ?folder) ?folder = Inr ?names" by (rule listdir_makedirs)
  with a b have 2: "\<exists>names. listdir (makedirs (files w) ?folder) ?folder = Inr names
            \<and> read_file (files w') ?folder
                 (country_group
                    @ str_nat (length (filter (\<lambda>f. endswith f ''.png'') names) + 1) @ ''.png'')
                 \<noteq> None
            \<and> (\<forall>name. name \<noteq> country_group
                    @ str_nat (length (filter (\<lambda>f. endswith f ''.png'') names) + 1) @ ''.png''
                 \<longrightarrow> read_file (files w') ?folder name = read_file (files w) ?folder name)"
    by blast
  from 1 2 show ?thesis by blast
qed

theorem next_image_name_witness:
  "read_file (files (snd (save_images sample_env ''groupA'' (''generated_images/'' @ ''groupA'')
        False [Some ''AB''] group_a_world))) ''generated_images/groupA'' ''groupA3.png'' \<noteq> None
   \<and> read_file (files (snd (save_images sample_env ''groupA'' (''generated_images/'' @ ''groupA'')
        False [Some ''AB''] group_a_world))) ''generated_images/groupA'' ''groupA1.png'' = Some ''one''
   \<and> read_file (files (snd (save_images sample_env ''groupA'' (''generated_images/'' @ ''groupA'')
        False [Some ''AB''] group_a_world))) ''generated_images/groupA'' ''groupA2.png'' = Some ''two''"
proof -
  have g: "CHR ''/'' \<notin> set ''groupA''" by simp
  have p: "''AB'' \<noteq> []" by simp
  note h = next_image_name[OF g p group_a_run, of "''generated_images/groupA''"]
  from h show ?thesis
    by (simp add: group_a_run group_a_world_def empty_world_def eval_defs str_nat_digit)
qed

text \<open>
  The claim as stated fails: a directory of \<open>groupA\<close> that holds only \<open>portrait.png\<close> has
  no file matching the naming pattern of the group, so the index of the claim is 1, and
  \<open>get_next_image_number\<close> returns 2.
\<close>

theorem next_index_counts_every_png:
  "fst (get_next_image_number portrait_world ''generated_images/groupA'') = Inr 2
   \<and> listdir (files portrait_world) ''generated_images/groupA'' = Inr [''portrait.png'']
   \<and> spec_next_index ''groupA'' [''portrait.png''] = 1"
  by (simp add: eval_defs portrait_world_def spec_next_index_def matches_group_pattern_def)

text \<open>
  C3 (amended). A decode or save error for one image of a batch is not caught: when the
  images before it have been saved and saving it raises, the loop ends with that
  exception, the images after it are not saved, the file system stays as it was before
  the failing save, and the exception leaves the batch and ends the collection of the
  groups.
\<close>

theorem save_error_aborts_batch:
  assumes "save_images env country_group (''generated_images/'' @ country_group) resize
             before w = (Inr (), w1)"
    and "truthy image_bytes"
    and "get_next_image_number w1 (''generated_images/'' @ country_group) = (Inr n, w2)"
    and "save_image env w2 image_bytes (''generated_images/'' @ country_group)
           (country_group @ str_nat n @ ''.png'') resize = (Inl e, w3)"
  shows "save_images env country_group (''generated_images/'' @ country_group) resize
           (before @ image_bytes # rest) w = (Inl e, w3)
       \<and> files w3 = files w2
       \<and> group_collect env w country_group resize (map Inr (before @ image_bytes # rest))
           = (Inl e, w3)
       \<and> collect_groups env resize
           ((country_group, map Inr (before @ image_bytes # rest)) # others) w = (Inl e, w3)"
proof -
  let ?folder = "''generated_images/'' @ country_group"
  have 1: "save_images env country_group ?folder resize (before @ image_bytes # rest) w = (Inl e, w3)"
    using assms by (simp add: save_images_append Let_def)
  from assms(3) have "files w2 = makedirs (files w1) ?folder"
    by (auto simp: get_next_image_number_eq)
  with save_image_failure_files[OF assms(4)] have 2: "files w3 = files w2"
    by (simp add: makedirs_idem)
  have 3: "group_collect env w country_group resize (map Inr (before @ image_bytes # rest))
           = (Inl e, w3)"
    unfolding group_collect_def gather_map_Inr using 1 by (simp add: Let_def)
  then have 4: "collect_groups env resize
           ((country_group, map Inr (before @ image_bytes # rest)) # others) w = (Inl e, w3)"
    by simp
  from 1 2 3 4 show ?thesis by blast
qed

theorem save_error_aborts_batch_witness:
  "group_collect sample_env nordic_world ''nordic'' False
       (map Inr ([Some ''AB''] @ Some ''XX'' # [Some ''CD'']))
     = (Inl UnidentifiedImageError,
        nordic_world\<lparr>files := [(''generated_images/nordic'', [(''nordic1.png'', ''AB'')])],
          stdout := [ImageSaved ''generated_images/nordic/nordic1.png'']\<rparr>)"
proof -
  let ?w1 = "nordic_world\<lparr>files := [(''generated_images/nordic'', [(''nordic1.png'', ''AB'')])],
          stdout := [ImageSaved ''generated_images/nordic/nordic1.png'']\<rparr>"
  have a: "save_images sample_env ''nordic'' (''generated_images/'' @ ''nordic'') False
             [Some ''AB''] nordic_world = (Inr (), ?w1)"
    by (simp add: eval_defs nordic_world_def str_nat_digit)
  have b: "truthy (Some ''XX'')" by (simp add: truthy_def)
  have c: "get_next_image_number ?w1 (''generated_images/'' @ ''nordic'') = (Inr 2, ?w1)"
    by (simp add: eval_defs nordic_world_def)
  have d: "save_image sample_env ?w1 (Some ''XX'') (''generated_images/'' @ ''nordic'')
           (''nordic'' @ str_nat 2 @ ''.png'') False = (Inl UnidentifiedImageError, ?w1)"
    by (simp add: eval_defs nordic_world_def str_nat_digit)
  from save_error_aborts_batch[OF a b c d, of "[Some ''CD'']"] show ?thesis by blast
qed

text \<open>
  The claim as stated fails: when the first of two payloads is not an image, the batch
  raises and the second image is not saved; a run whose server sends such a payload ends
  with the exception.
\<close>

theorem save_error_is_not_caught:
  "fst (group_collect sample_env nordic_world ''nordic'' False
          [Inr (Some ''XX''), Inr (Some ''AB'')]) = Inl UnidentifiedImageError
   \<and> listdir (files (snd (group_collect sample_env nordic_world ''nordic'' False
          [Inr (Some ''XX''), Inr (Some ''AB'')]))) ''generated_images/nordic'' = Inr []
   \<and> fst (generate_images_for_country_group broken_env empty_world ''nordic'' sample_config
          2 512 512 1 ''schnell'' False) = Inl UnidentifiedImageError
   \<and> fst (the (main broken_env sample_args sample_config empty_world))
       = Uncaught UnidentifiedImageError"
  by (simp add: eval_defs generate_images_for_country_group_def nordic_world_def broken_env_def
      ask_loop.simps str_nat_digit numeral_2_eq_2)

end
